theory Spec2Isabelle
  imports Complex_Main "HOL-Library.AList"
begin

section \<open>RaceMind strategy engine: data model\<close>

text \<open>
  The engine (StrategyEngine.ts), the telemetry calibrator (OpenF1.ts) and the block of
  \<open>onPredict\<close> (App.tsx) that builds the track profile are embedded as HOL functions.
  A JavaScript \<open>number\<close> that holds a time is a \<^typ>\<open>real\<close>; a \<open>number\<close> that holds a
  lap count or a lap number is an \<^typ>\<open>int\<close>. A thrown \<open>Error\<close> (a rejected promise) is
  the \<open>Inl\<close> of a sum type.

  In the cost model, the search and the calibrator the arithmetic on times is ideal: the
  rounding of IEEE doubles moves their values by a few units in the last place, and
  NaN and the infinities are not modelled. Plans whose totals tie in ideal arithmetic
  can be separated by rounding in the code, so the properties of the search stated below
  are those that hold for whichever plan wins: the lap counts, the number of stints, the
  errors. In the race clock the digits printed depend on the rounding, and there every
  operation is rounded to binary64.
\<close>

datatype TyreCompound = SOFT | MEDIUM | HARD

record StaticTrackData =
  laps :: int
  pit_loss_seconds :: real
  base_lap_time_seconds :: real
  degradation_per_lap_seconds :: "TyreCompound \<Rightarrow> real"

text \<open>
  A \<open>TrackDictionary\<close> is a plain JavaScript object used as a dictionary (an object
  literal, as \<open>onPredict\<close> builds it with \<open>{...tracks, [trackName]: entry}\<close>): its own
  properties are an association list with one pair per key, listed with \<open>map snd\<close>
  (\<open>Object.values\<close>) and extended with \<^const>\<open>AList.update\<close>.
\<close>

type_synonym TrackDictionary = "(string \<times> StaticTrackData) list"

text \<open>
  The property read \<open>obj[key]\<close> follows the prototype chain: when \<open>key\<close> is not an own
  property of the object, the read finds the properties of \<open>Object.prototype\<close>, its
  eleven methods and the accessor \<open>__proto__\<close>, and is \<open>undefined\<close> for every other key.
  An own value is a track profile; an inherited value is a function (for \<open>__proto__\<close>,
  the object \<open>Object.prototype\<close> itself): it is truthy and has none of the fields of a
  track profile.
\<close>

definition objectPrototypeKeys :: "string list" where
  "objectPrototypeKeys =
     [''constructor'', ''__defineGetter__'', ''__defineSetter__'', ''hasOwnProperty'',
      ''__lookupGetter__'', ''__lookupSetter__'', ''isPrototypeOf'', ''propertyIsEnumerable'',
      ''toString'', ''valueOf'', ''__proto__'', ''toLocaleString'']"

datatype property = Own StaticTrackData | Inherited | Undefined

definition getProperty :: "TrackDictionary \<Rightarrow> string \<Rightarrow> property" where
  "getProperty obj key =
     (case map_of obj key of
        Some v \<Rightarrow> Own v
      | None \<Rightarrow> if key \<in> set objectPrototypeKeys then Inherited else Undefined)"

text \<open>
  The field \<open>laps\<close> of a \<open>StrategyStint\<close> is written \<open>stint_laps\<close>, since
  \<open>laps\<close> is the field of \<open>StaticTrackData\<close> already; the optional field
  \<open>notes\<close> of a \<open>StrategyPlan\<close> is written \<open>plan_notes\<close>, and the modes
  \<open>"A" | "B" | "C"\<close> are \<open>ModeA\<close>, \<open>ModeB\<close>, \<open>ModeC\<close>.
\<close>

record StrategyStint =
  compound :: TyreCompound
  stint_laps :: int

record StrategyPlan =
  stints :: "StrategyStint list"
  totalTimeSeconds :: real
  numStops :: int
  plan_notes :: "string option"

datatype Mode = ModeA | ModeB | ModeC

record StrategyEngineInput =
  trackName :: string
  raceYear :: real
  driverName :: "string option"
  rainProbabilityPct :: "real option"
  mode :: "Mode option"
  tracksData :: "TrackDictionary option"

definition tyresOrder :: "TyreCompound list" where
  "tyresOrder = [SOFT, MEDIUM, HARD]"

section \<open>Cost model\<close>

text \<open>
  \<open>computeStintTimeSeconds(baseLap, degPerLap, laps, fuelPenaltyPerLap = 0.015)\<close>:
  the optional fourth parameter is an option, \<open>None\<close> when the caller leaves it out.
\<close>

definition computeStintTimeSeconds :: "real \<Rightarrow> real \<Rightarrow> real \<Rightarrow> real option \<Rightarrow> real" where
  "computeStintTimeSeconds baseLap degPerLap lapsN fuelPenaltyPerLapOpt =
     (let fuelPenaltyPerLap = (case fuelPenaltyPerLapOpt of None \<Rightarrow> 0.015 | Some f \<Rightarrow> f);
          degradationSum = degPerLap * (lapsN * (lapsN + 1)) / 2;
          fuelSum = fuelPenaltyPerLap * (lapsN * (lapsN - 1)) / 2
      in lapsN * baseLap + degradationSum + fuelSum)"

section \<open>Candidate generator\<close>

text \<open>
  \<open>String(n)\<close> for an integer \<open>n\<close> (decimal digits, a leading minus sign), as
  \<open>Array.prototype.join\<close> and the template literals apply it. This is the string of
  JavaScript for the integers of magnitude up to \<open>2^53\<close>, which are all doubles; a
  larger double is printed with the shortest digits that identify it, padded with zeros,
  and in exponent notation from \<open>1e21\<close> on, which is not modelled.
\<close>

fun decimal_digits :: "nat \<Rightarrow> string" where
  "decimal_digits n =
     (if n < 10 then [char_of (48 + n)]
      else decimal_digits (n div 10) @ [char_of (48 + n mod 10)])"

declare decimal_digits.simps [simp del]

definition String_int :: "int \<Rightarrow> string" where
  "String_int i = (if i < 0 then CHR ''-'' # decimal_digits (nat (- i)) else decimal_digits (nat i))"

fun join :: "string \<Rightarrow> int list \<Rightarrow> string" where
  "join sep [] = []"
| "join sep [x] = String_int x"
| "join sep (x # y # ys) = String_int x @ sep @ join sep (y # ys)"

text \<open>
  \<open>generateCandidateStints(totalLaps)\<close>. \<open>candidates.push\<close> appends; the three
  \<open>for\<close> loops over \<open>-3 .. 3\<close> are folds over \<open>[-3..3]\<close>; \<open>Math.floor(totalLaps / k)\<close>
  is \<open>div\<close> on \<^typ>\<open>int\<close>, which rounds down. The \<open>Map\<close> \<open>uniq\<close> is an association
  list in insertion order: \<open>uniq.set(key, seq)\<close> replaces the value of a key that is
  present where it stands and appends a new key, as \<^const>\<open>AList.update\<close> does.
\<close>

definition generateCandidateStints :: "int \<Rightarrow> int list list" where
  "generateCandidateStints totalLaps =
     (let candidates = [];
          candidates =
            fold (\<lambda>delta cs.
                    let a = max 1 (totalLaps div 2 + delta);
                        b = totalLaps - a
                    in if b > 0 then cs @ [[a, b]] else cs)
                 [-3..3] candidates;
          candidates =
            fold (\<lambda>d1 cs.
                    fold (\<lambda>d2 cs.
                            let a = max 1 (totalLaps div 3 + d1);
                                b = max 1 (totalLaps div 3 + d2);
                                c = totalLaps - a - b
                            in if c > 0 then cs @ [[a, b, c]] else cs)
                         [-3..3] cs)
                 [-3..3] candidates;
          q = max 1 (totalLaps div 4);
          candidates = candidates @ [[q, q, q, totalLaps - 3 * q]];
          candidates = candidates @ [[totalLaps]];
          uniq = fold (\<lambda>seq uniq. AList.update (join ''-'' seq) seq uniq) candidates []
      in map snd uniq)"

section \<open>Compound assigner\<close>

text \<open>
  \<open>assignCompounds(numStints)\<close>. The closure \<open>recurse(idx, path)\<close> pushes onto the
  shared array \<open>assignments\<close>, which the model passes in and returns; \<open>path.push(c)\<close>
  before the call and \<open>path.pop()\<close> after it are the argument \<open>path @ [c]\<close>.
  \<open>new Set(path).size\<close> is \<open>card (set path)\<close>. The index starts at 0 and grows by one,
  and \<open>numStints\<close> is the length of an array, so \<open>numStints < idx\<close> is never reached;
  that branch only makes the recursion well-founded.
\<close>

function recurse :: "nat \<Rightarrow> nat \<Rightarrow> TyreCompound list \<Rightarrow> TyreCompound list list \<Rightarrow> TyreCompound list list" where
  "recurse numStints idx path assignments =
     (if idx = numStints then
        (if 2 \<le> card (set path) then assignments @ [path] else assignments)
      else if numStints < idx then assignments
      else fold (\<lambda>c acc. recurse numStints (idx + 1) (path @ [c]) acc) tyresOrder assignments)"
  by pat_completeness auto
termination
  by (relation "measure (\<lambda>(numStints, idx, path, assignments). numStints - idx)") auto

declare recurse.simps [simp del]

definition assignCompounds :: "nat \<Rightarrow> TyreCompound list list" where
  "assignCompounds numStints = recurse numStints 0 [] []"

text \<open>
  The Cartesian enumeration the assigner walks: every sequence of \<open>k\<close> compounds, in the
  order of the nested loops (the first stint varies slowest).
\<close>

fun sequences :: "nat \<Rightarrow> TyreCompound list list" where
  "sequences 0 = [[]]"
| "sequences (Suc k) = concat (map (\<lambda>c. map ((#) c) (sequences k)) [SOFT, MEDIUM, HARD])"

section \<open>Search driver\<close>

text \<open>
  The ways the promise of \<open>predictBestStrategy\<close> is rejected: the three \<open>Error\<close>s that
  the engine throws, with the messages \<open>tracksData required for modes A/B\<close>,
  \<open>Unknown track: \<close> followed by the track name, and \<open>Failed to compute strategy\<close>;
  and the \<open>TypeError\<close> that the runtime throws when a property of \<open>undefined\<close> is read.
\<close>

datatype engine_error =
  TracksDataRequired
| UnknownTrack string
| FailedToComputeStrategy
| TypeError

text \<open>
  \<open>Array.prototype.sort(cmp)\<close> is stable: an insertion sort that puts an element before
  the first later element it does not compare greater than. The engine's comparator
  \<open>(a, b) => (lapsPerStint.length - 1) - (lapsPerStint.length - 1)\<close> ignores both
  arguments.
\<close>

fun insert_cmp :: "('a \<Rightarrow> 'a \<Rightarrow> int) \<Rightarrow> 'a \<Rightarrow> 'a list \<Rightarrow> 'a list" where
  "insert_cmp cmp x [] = [x]"
| "insert_cmp cmp x (y # ys) = (if cmp x y \<le> 0 then x # y # ys else y # insert_cmp cmp x ys)"

definition sort_cmp :: "('a \<Rightarrow> 'a \<Rightarrow> int) \<Rightarrow> 'a list \<Rightarrow> 'a list" where
  "sort_cmp cmp xs = foldr (insert_cmp cmp) xs []"

text \<open>
  The body of the inner loop up to the plan: the total over the stints (the loop over
  \<open>i\<close>), the pit losses, and the stints \<open>compounds.map((c, i) => ...)\<close>. Every
  \<open>compounds\<close> comes from \<open>assignCompounds(lapsPerStint.length)\<close> and has that length,
  so both index reads are in range.
\<close>

definition planFor :: "StaticTrackData \<Rightarrow> int list \<Rightarrow> TyreCompound list \<Rightarrow> StrategyPlan" where
  "planFor track lapsPerStint compounds =
     (let total =
            fold (\<lambda>i total.
                    let compound = compounds ! i;
                        lapsN = lapsPerStint ! i;
                        deg = degradation_per_lap_seconds track compound
                    in total + computeStintTimeSeconds (base_lap_time_seconds track) deg (of_int lapsN) None)
                 [0..<length lapsPerStint] 0;
          numStops = int (length lapsPerStint) - 1;
          total = total + of_int numStops * pit_loss_seconds track
      in \<lparr>stints = map (\<lambda>i. \<lparr>compound = compounds ! i, stint_laps = lapsPerStint ! i\<rparr>)
                       [0..<length compounds],
          totalTimeSeconds = total,
          numStops = numStops,
          plan_notes = None\<rparr>)"

text \<open>
  The inner loop \<open>for (const compounds of sortedCompounds)\<close> with its \<open>break\<close>:
  \<open>best\<close> is \<open>null\<close> (\<open>None\<close>) or the best plan so far. After the update \<open>best\<close> is
  never \<open>null\<close>, so the guard \<open>best && ...\<close> of the \<open>break\<close> is its second conjunct.
\<close>

fun searchCompounds ::
  "StaticTrackData \<Rightarrow> int list \<Rightarrow> TyreCompound list list \<Rightarrow> StrategyPlan option \<Rightarrow> StrategyPlan option" where
  "searchCompounds track lapsPerStint [] best = best"
| "searchCompounds track lapsPerStint (compounds # rest) best =
     (let plan = planFor track lapsPerStint compounds;
          best' = (case best of
                     None \<Rightarrow> plan
                   | Some b \<Rightarrow> if totalTimeSeconds plan < totalTimeSeconds b then plan else b)
      in if numStops plan > numStops best' + 1 then Some best'
         else searchCompounds track lapsPerStint rest (Some best'))"

definition searchPartitions :: "StaticTrackData \<Rightarrow> int list list \<Rightarrow> StrategyPlan option" where
  "searchPartitions track partitions =
     fold (\<lambda>lapsPerStint best.
             let compoundChoices = assignCompounds (length lapsPerStint);
                 sortedCompounds =
                   sort_cmp (\<lambda>a b. (int (length lapsPerStint) - 1) - (int (length lapsPerStint) - 1))
                     compoundChoices
             in searchCompounds track lapsPerStint sortedCompounds best)
          partitions None"

text \<open>
  \<open>predictBestStrategy(input)\<close>: the promise resolves to \<open>Inr plan\<close> or rejects with
  \<open>Inl error\<close>. It reads \<open>trackName\<close> and \<open>tracksData\<close> of its input only.

  The guard \<open>if (!track)\<close> lets every truthy value through, an inherited one too. With
  an inherited value, \<open>track.laps\<close> is \<open>undefined\<close> and \<open>generateCandidateStints(undefined)\<close>
  is \<open>[[NaN, NaN, NaN, NaN], [undefined]]\<close>: every comparison \<open>b > 0\<close>, \<open>c > 0\<close> with
  \<open>NaN\<close> is false, the two unguarded pushes are made, and their keys \<open>NaN-NaN-NaN-NaN\<close>
  and the empty string differ. The first partition has four entries and
  \<open>assignCompounds(4)\<close> is not empty, so the innermost loop is entered, and its
  statement \<open>const deg = track.degradation_per_lap_seconds[compound]\<close> reads a property
  of \<open>undefined\<close>: the call ends in a \<open>TypeError\<close> before any plan is recorded.
\<close>

definition predictBestStrategy :: "StrategyEngineInput \<Rightarrow> engine_error + StrategyPlan" where
  "predictBestStrategy input =
     (case tracksData input of
        None \<Rightarrow> Inl TracksDataRequired
      | Some tracks \<Rightarrow>
          (case getProperty tracks (trackName input) of
             Undefined \<Rightarrow> Inl (UnknownTrack (trackName input))
           | Inherited \<Rightarrow> Inl TypeError
           | Own track \<Rightarrow>
               (case searchPartitions track (generateCandidateStints (laps track)) of
                  None \<Rightarrow> Inl FailedToComputeStrategy
                | Some best \<Rightarrow> Inr best)))"

section \<open>Binary64 arithmetic\<close>

text \<open>
  The numbers of the race clock are IEEE 754 binary64 values: a finite double is a real
  \<open>x\<close> with \<open>round64 x = x\<close>, and an arithmetic operation of JavaScript returns the double
  nearest to its exact result, \<open>round64\<close> of it. Overflow to an infinity is not
  modelled; no operation of the clock overflows (a division by 60, a remainder, the
  subtraction of the floor, the product of a fraction and 1000).
\<close>

text \<open>The number of binary digits of a natural number.\<close>

fun bitlength :: "nat \<Rightarrow> nat" where
  "bitlength n = (if n = 0 then 0 else Suc (bitlength (n div 2)))"

declare bitlength.simps [simp del]

text \<open>The power \<open>2^e\<close> for an integer exponent \<open>e\<close>.\<close>

definition pow2 :: "int \<Rightarrow> real" where
  "pow2 e = (if 0 \<le> e then 2 ^ nat e else 1 / 2 ^ nat (- e))"

text \<open>
  For \<open>x > 0\<close>, the exponent \<open>e\<close> with \<open>2^e \<le> x < 2^(e + 1)\<close>, computed from the binary
  digits of \<open>\<lfloor>x\<rfloor>\<close> when \<open>x \<ge> 1\<close> and of \<open>\<lceil>1 / x\<rceil> - 1\<close> when \<open>x < 1\<close>
  (lemma \<open>binade_bounds\<close>).
\<close>

definition binade :: "real \<Rightarrow> int" where
  "binade x =
     (if 1 \<le> x then int (bitlength (nat \<lfloor>x\<rfloor>)) - 1
      else - int (bitlength (nat (\<lceil>1 / x\<rceil> - 1))))"

text \<open>
  The doubles with the exponent \<open>e\<close> of \<open>x\<close> are the multiples of \<open>2^(e - 52)\<close> (a
  significand of 53 bits); the subnormal doubles are the multiples of \<open>2^(-1074)\<close>.
\<close>

definition ulp_exponent :: "real \<Rightarrow> int" where
  "ulp_exponent x = max (- 1074) (binade x - 52)"

definition ulp :: "real \<Rightarrow> real" where
  "ulp x = pow2 (ulp_exponent x)"

text \<open>Rounding to the nearest integer, a tie to the even one.\<close>

definition round_half_even :: "real \<Rightarrow> int" where
  "round_half_even y =
     (let f = \<lfloor>y\<rfloor>; d = y - of_int f
      in if d < 1 / 2 then f else if 1 / 2 < d then f + 1 else if even f then f else f + 1)"

text \<open>
  The double nearest to a real (round to nearest, ties to even), and the reals that are
  doubles.
\<close>

definition round64 :: "real \<Rightarrow> real" where
  "round64 x =
     (if x = 0 then 0
      else sgn x * (of_int (round_half_even (\<bar>x\<bar> / ulp \<bar>x\<bar>)) * ulp \<bar>x\<bar>))"

definition is_double :: "real \<Rightarrow> bool" where
  "is_double x \<longleftrightarrow> round64 x = x"

section \<open>Race clock\<close>

text \<open>
  The remainder \<open>x % y\<close> of JavaScript takes the sign of \<open>x\<close>: the quotient is
  truncated towards zero.
\<close>

definition truncate_real :: "real \<Rightarrow> int" where
  "truncate_real r = (if 0 \<le> r then \<lfloor>r\<rfloor> else \<lceil>r\<rceil>)"

definition js_rem :: "real \<Rightarrow> real \<Rightarrow> real" where
  "js_rem x y = x - y * of_int (truncate_real (x / y))"

definition padStart :: "nat \<Rightarrow> char \<Rightarrow> string \<Rightarrow> string" where
  "padStart n c s = replicate (n - length s) c @ s"

text \<open>
  \<open>formatSeconds(totalSeconds)\<close> for a finite double \<open>totalSeconds\<close>. \<open>Math.floor\<close> is
  exact; the division, the remainder, the subtraction and the multiplication each return
  the double nearest to the exact result. The literal \<open>60\<close>, the literal \<open>1000\<close> and
  the floor of a double are doubles. The three numbers are printed with all their
  digits, which is what \<open>String\<close> does as long as the minutes are below \<open>2^53\<close> in
  magnitude.
\<close>

definition formatSeconds :: "real \<Rightarrow> string" where
  "formatSeconds totalSeconds =
     (let minutes = \<lfloor>round64 (totalSeconds / 60)\<rfloor>;
          seconds = \<lfloor>round64 (js_rem totalSeconds 60)\<rfloor>;
          millis = \<lfloor>round64 (round64 (totalSeconds - of_int \<lfloor>totalSeconds\<rfloor>) * 1000)\<rfloor>;
          mm = String_int minutes;
          ss = padStart 2 CHR ''0'' (String_int seconds);
          mmm = padStart 3 CHR ''0'' (String_int millis)
      in mm @ '':'' @ ss @ ''.'' @ mmm)"

section \<open>Telemetry calibrator\<close>

record OpenF1Lap =
  lap_number :: int
  driver_number :: int
  session_key :: "int option"
  duration_sector_1 :: "real option"
  duration_sector_2 :: "real option"
  duration_sector_3 :: "real option"
  duration :: "real option"
  tyre :: "string option"

text \<open>
  The flying-lap durations: \<open>laps.map(l => l.duration)\<close>, filtered to the numbers, then
  to those strictly between 30 and 200.
\<close>

definition flyingDurations :: "OpenF1Lap list \<Rightarrow> real list" where
  "flyingDurations lapsL = filter (\<lambda>x. x > 30 \<and> x < 200) (List.map_filter duration lapsL)"

text \<open>
  \<open>inferPitLossFromLaps(laps)\<close>: \<open>null\<close> is \<open>None\<close>. \<open>sort((a, b) => a - b)\<close> is the
  ascending sort of the list; both index reads are in range when the list has ten
  elements or more.
\<close>

definition inferPitLossFromLaps :: "OpenF1Lap list \<Rightarrow> real option" where
  "inferPitLossFromLaps lapsL =
     (if length lapsL = 0 then None
      else
        let durations = flyingDurations lapsL in
        if length durations < 10 then None
        else
          let sorted = sort durations;
              median = sorted ! (length sorted div 2);
              maxD = sorted ! (length sorted - 1);
              pitLoss = max 15 (min 30 (maxD - median))
          in Some pitLoss)"

text \<open>
  \<open>String.prototype.toUpperCase\<close> on the ASCII letters; other characters are kept.
\<close>

definition toUpperCase_char :: "char \<Rightarrow> char" where
  "toUpperCase_char c =
     (let n = (of_char c :: nat) in if 97 \<le> n \<and> n \<le> 122 then char_of (n - 32) else c)"

definition toUpperCase :: "string \<Rightarrow> string" where
  "toUpperCase s = map toUpperCase_char s"

text \<open>
  The first loop of \<open>inferDegradationFromLaps\<close>. \<open>lapLabel\<close> is
  \<open>const t = (l.tyre || '').toUpperCase()\<close>. The \<open>Map\<close> \<open>byTyre\<close> is an association
  list in insertion order. A lap is skipped when \<open>!t || !l.duration || !l.lap_number\<close>:
  the label is absent or empty, the duration is absent or zero, or the lap number is zero.
\<close>

definition lapLabel :: "OpenF1Lap \<Rightarrow> string" where
  "lapLabel l = toUpperCase (case tyre l of None \<Rightarrow> [] | Some s \<Rightarrow> s)"

definition skipLap :: "OpenF1Lap \<Rightarrow> bool" where
  "skipLap l =
     (let t = lapLabel l
      in t = [] \<or> (case duration l of None \<Rightarrow> True | Some d \<Rightarrow> d = 0) \<or> lap_number l = 0)"

definition groupStep :: "OpenF1Lap \<Rightarrow> (string \<times> OpenF1Lap list) list \<Rightarrow> (string \<times> OpenF1Lap list) list" where
  "groupStep l byTyre =
     (let t = lapLabel l in
      if skipLap l then byTyre
      else
        let byTyre = (if map_of byTyre t = None then byTyre @ [(t, [])] else byTyre)
        in AList.map_entry t (\<lambda>arr. arr @ [l]) byTyre)"

definition groupByTyre :: "OpenF1Lap list \<Rightarrow> (string \<times> OpenF1Lap list) list" where
  "groupByTyre lapsL = fold groupStep lapsL []"

text \<open>
  The body of \<open>byTyre.forEach\<close> for one group: \<open>tyreSlope\<close> is \<open>None\<close> when the
  callback returns before the assignment to \<open>result[tyre]\<close>, else the clamped slope, and
  \<open>slopeStep\<close> makes the assignment. \<open>l.duration!\<close> is \<^const>\<open>the\<close>: every lap of a
  group has a duration.
\<close>

definition tyreSlope :: "OpenF1Lap list \<Rightarrow> real option" where
  "tyreSlope arr =
     (let xs = map (\<lambda>l. real_of_int (lap_number l)) arr;
          ys = map (\<lambda>l. the (duration l)) arr;
          n = length xs
      in if n < 12 then None
         else
           let meanX = foldl (\<lambda>a b. a + b) 0 xs / real n;
               meanY = foldl (\<lambda>a b. a + b) 0 ys / real n;
               (num, den) =
                 fold (\<lambda>i (num, den).
                         let dx = xs ! i - meanX
                         in (num + dx * (ys ! i - meanY), den + dx * dx))
                      [0..<n] (0, 0)
           in if den \<le> 0 then None
              else
                let slope = num / den;
                    clamped = max 0.03 (min 0.25 slope)
                in Some clamped)"

definition slopeStep :: "string \<times> OpenF1Lap list \<Rightarrow> (string \<times> real) list \<Rightarrow> (string \<times> real) list" where
  "slopeStep entry result =
     (case entry of (tyreL, arr) \<Rightarrow>
        (case tyreSlope arr of
           None \<Rightarrow> result
         | Some clamped \<Rightarrow> AList.update tyreL clamped result))"

definition inferDegradationFromLaps :: "OpenF1Lap list \<Rightarrow> (string \<times> real) list option" where
  "inferDegradationFromLaps lapsL =
     (let byTyre = groupByTyre lapsL in
      if length byTyre = 0 then None
      else
        let result = fold slopeStep byTyre []
        in if length result \<noteq> 0 then Some result else None)"

text \<open>
  Reading the result: \<open>deg?.SOFT\<close> is \<open>degradation_entry deg ''SOFT''\<close>, \<open>None\<close> when
  \<open>deg\<close> is \<open>null\<close> or has no such key.
\<close>

definition degradation_entry :: "(string \<times> real) list option \<Rightarrow> string \<Rightarrow> real option" where
  "degradation_entry deg key = (case deg of None \<Rightarrow> None | Some d \<Rightarrow> map_of d key)"

section \<open>Track profile builder\<close>

text \<open>
  The block of \<open>onPredict\<close> (App.tsx) that builds \<open>tracksForRun\<close>. The telemetry is
  the list of laps of the session found for the track, \<open>None\<close> when no session was
  found or a request failed (the \<open>catch\<close> keeps the static table).
  \<open>a || b\<close> on numbers takes \<open>b\<close> when \<open>a\<close> is \<open>null\<close> or zero (when \<open>a\<close> is not
  truthy);
  \<open>Math.floor(sorted.length * 0.2)\<close> is \<open>length sorted div 5\<close>.

  The builder is modelled for the track names that are not properties of
  \<open>Object.prototype\<close>, for which \<open>tracks[trackName]\<close> is the own entry or \<open>undefined\<close>
  (\<^const>\<open>map_of\<close>). For an inherited name the read is truthy and the second branch
  spreads a function into an entry that has no lap count: such an entry is not a track
  profile and is outside the data model.
\<close>

definition truthy_number :: "real option \<Rightarrow> bool" where
  "truthy_number a = (case a of None \<Rightarrow> False | Some x \<Rightarrow> x \<noteq> 0)"

definition or_number :: "real option \<Rightarrow> real \<Rightarrow> real" where
  "or_number a b = (case a of None \<Rightarrow> b | Some x \<Rightarrow> if x = 0 then b else x)"

definition Math_max :: "int list \<Rightarrow> int" where
  "Math_max xs = fold max (tl xs) (hd xs)"

definition average :: "(StaticTrackData \<Rightarrow> real) \<Rightarrow> StaticTrackData list \<Rightarrow> real" where
  "average f vals = foldl (\<lambda>a t. a + f t) 0 vals / real (length vals)"

definition degOr :: "(string \<times> real) list option \<Rightarrow> string \<Rightarrow> real \<Rightarrow> real" where
  "degOr deg key fallback =
     (case degradation_entry deg key of None \<Rightarrow> fallback | Some v \<Rightarrow> v)"

definition synthesizeTrack ::
  "TrackDictionary \<Rightarrow> OpenF1Lap list \<Rightarrow> real option \<Rightarrow> (string \<times> real) list option \<Rightarrow> StaticTrackData" where
  "synthesizeTrack tracks lapsL pit deg =
     (let durations = flyingDurations lapsL;
          sorted = sort durations;
          p20 = (if length sorted \<noteq> 0 then sorted ! (length sorted div 5) else 90);
          lapsCount = (if length lapsL \<noteq> 0 then Math_max (map lap_number lapsL) else 50);
          vals = map snd tracks;
          avgPit = average pit_loss_seconds vals;
          avgBase = average base_lap_time_seconds vals;
          avgDeg = (\<lambda>c. average (\<lambda>t. degradation_per_lap_seconds t c) vals)
      in \<lparr>laps = lapsCount,
          pit_loss_seconds = or_number pit avgPit,
          base_lap_time_seconds = or_number (Some p20) avgBase,
          degradation_per_lap_seconds =
            (\<lambda>c. case c of
                   SOFT \<Rightarrow> degOr deg ''SOFT'' (avgDeg SOFT)
                 | MEDIUM \<Rightarrow> degOr deg ''MEDIUM'' (avgDeg MEDIUM)
                 | HARD \<Rightarrow> degOr deg ''HARD'' (avgDeg HARD))\<rparr>)"

definition refineTrack ::
  "StaticTrackData \<Rightarrow> real option \<Rightarrow> (string \<times> real) list option \<Rightarrow> StaticTrackData" where
  "refineTrack known pit deg =
     known\<lparr>pit_loss_seconds := or_number pit (pit_loss_seconds known),
           degradation_per_lap_seconds :=
             (\<lambda>c. case c of
                    SOFT \<Rightarrow> degOr deg ''SOFT'' (degradation_per_lap_seconds known SOFT)
                  | MEDIUM \<Rightarrow> degOr deg ''MEDIUM'' (degradation_per_lap_seconds known MEDIUM)
                  | HARD \<Rightarrow> degOr deg ''HARD'' (degradation_per_lap_seconds known HARD))\<rparr>"

definition tracksForRun :: "TrackDictionary \<Rightarrow> string \<Rightarrow> OpenF1Lap list option \<Rightarrow> TrackDictionary" where
  "tracksForRun tracks name telemetry =
     (case telemetry of
        None \<Rightarrow> tracks
      | Some lapsL \<Rightarrow>
          let pit = inferPitLossFromLaps lapsL;
              deg = inferDegradationFromLaps lapsL
          in (case map_of tracks name of
                None \<Rightarrow> AList.update name (synthesizeTrack tracks lapsL pit deg) tracks
              | Some known \<Rightarrow>
                  if truthy_number pit \<or> deg \<noteq> None
                  then AList.update name (refineTrack known pit deg) tracks
                  else tracks))"

section \<open>Auxiliary definitions\<close>

text \<open>
  Used in the statements and proofs only. For the candidate generator and the search:
  the candidates before deduplication in closed form, the deduplication loop over any
  key, the body of the outer search loop without its sort, and the digits of a decimal
  string.
\<close>

definition candidateStints :: "int \<Rightarrow> int list list" where
  "candidateStints n =
     map (\<lambda>d. [max 1 (n div 2 + d), n - max 1 (n div 2 + d)])
         (filter (\<lambda>d. n - max 1 (n div 2 + d) > 0) [-3..3])
     @ concat (map (\<lambda>d1.
         map (\<lambda>d2. [max 1 (n div 3 + d1), max 1 (n div 3 + d2),
                      n - max 1 (n div 3 + d1) - max 1 (n div 3 + d2)])
             (filter (\<lambda>d2. n - max 1 (n div 3 + d1) - max 1 (n div 3 + d2) > 0) [-3..3]))
         [-3..3])
     @ [[max 1 (n div 4), max 1 (n div 4), max 1 (n div 4), n - 3 * max 1 (n div 4)]]
     @ [[n]]"

definition dedup :: "('a \<Rightarrow> 'k) \<Rightarrow> 'a list \<Rightarrow> ('k \<times> 'a) list \<Rightarrow> ('k \<times> 'a) list" where
  "dedup key xs uniq = fold (\<lambda>seq uniq. AList.update (key seq) seq uniq) xs uniq"

definition searchStep :: "StaticTrackData \<Rightarrow> int list \<Rightarrow> StrategyPlan option \<Rightarrow> StrategyPlan option" where
  "searchStep track lps best = searchCompounds track lps (assignCompounds (length lps)) best"

definition digit_char :: "char \<Rightarrow> bool" where
  "digit_char c \<longleftrightarrow> 48 \<le> (of_char c :: nat) \<and> (of_char c :: nat) \<le> 57"

definition digits_value :: "string \<Rightarrow> nat" where
  "digits_value s = foldl (\<lambda>a c. 10 * a + (of_char c - 48)) 0 s"

definition digit :: "nat \<Rightarrow> char" where
  "digit d = char_of (48 + d)"

text \<open>A lap whose duration lies strictly between 30 and 200 seconds.\<close>

definition inBand :: "OpenF1Lap \<Rightarrow> bool" where
  "inBand l = (case duration l of None \<Rightarrow> False | Some d \<Rightarrow> 30 < d \<and> d < 200)"

text \<open>
  The pit-loss estimate as the specification words it: the median of the durations in
  the band (the middle element of their sorted list, the mean of the two middle elements
  when their number is even), and the maximum minus the median clamped into \<open>[15, 30]\<close>,
  from ten durations on.
\<close>

definition median :: "real list \<Rightarrow> real" where
  "median xs =
     (let s = sort xs; n = length s
      in if even n then (s ! (n div 2 - 1) + s ! (n div 2)) / 2 else s ! (n div 2))"

definition spec_inferPitLoss :: "OpenF1Lap list \<Rightarrow> real option" where
  "spec_inferPitLoss lapsL =
     (let ds = map (\<lambda>l. the (duration l)) (filter inBand lapsL)
      in if length ds < 10 then None
         else Some (max 15 (min 30 (Max (set ds) - median ds))))"

text \<open>The laps with a given label that the first loop of \<open>inferDegradationFromLaps\<close> keeps.\<close>

definition groupOf :: "OpenF1Lap list \<Rightarrow> string \<Rightarrow> OpenF1Lap list" where
  "groupOf lapsL key = filter (\<lambda>l. \<not> skipLap l \<and> lapLabel l = key) lapsL"

text \<open>
  Ordinary least squares, as the specification words it: from twelve points on, with
  a positive \<open>\<Sum>(x - mean x)\<^sup>2\<close>, the slope
  \<open>\<Sum>(x - mean x)(y - mean y) / \<Sum>(x - mean x)\<^sup>2\<close> clamped into \<open>[0.03, 0.25]\<close>; no
  estimate otherwise. The points of a group of laps are (lap number, duration).
\<close>

definition olsSlope :: "(real \<times> real) list \<Rightarrow> real option" where
  "olsSlope pts =
     (let n = length pts;
          meanX = sum_list (map fst pts) / real n;
          meanY = sum_list (map snd pts) / real n;
          num = (\<Sum>p\<leftarrow>pts. (fst p - meanX) * (snd p - meanY));
          den = (\<Sum>p\<leftarrow>pts. (fst p - meanX)\<^sup>2)
      in if 12 \<le> n \<and> 0 < den then Some (max 0.03 (min 0.25 (num / den))) else None)"

definition lapPoints :: "OpenF1Lap list \<Rightarrow> (real \<times> real) list" where
  "lapPoints arr = map (\<lambda>l. (real_of_int (lap_number l), the (duration l))) arr"

text \<open>
  The grouping as the specification words it: a lap is kept when it has a compound
  label and a duration; the estimate for a label is the slope of the laps kept with that
  label.
\<close>

definition spec_usable :: "OpenF1Lap \<Rightarrow> bool" where
  "spec_usable l \<longleftrightarrow> lapLabel l \<noteq> [] \<and> duration l \<noteq> None"

definition spec_degradation_entry :: "OpenF1Lap list \<Rightarrow> string \<Rightarrow> real option" where
  "spec_degradation_entry lapsL key =
     olsSlope (lapPoints (filter (\<lambda>l. spec_usable l \<and> lapLabel l = key) lapsL))"

text \<open>Example telemetry: a lap record, and the sessions used as concrete inputs.\<close>

definition exampleLap :: "int \<Rightarrow> real option \<Rightarrow> string option \<Rightarrow> OpenF1Lap" where
  "exampleLap n d t =
     \<lparr>lap_number = n, driver_number = 1, session_key = Some 9000,
      duration_sector_1 = None, duration_sector_2 = None, duration_sector_3 = None,
      duration = d, tyre = t\<rparr>"

text \<open>Twenty laps between 88 and 92 seconds and one pit lap of 115 seconds.\<close>

definition pitLossLaps :: "OpenF1Lap list" where
  "pitLossLaps =
     map (\<lambda>i. exampleLap (int i + 1) (Some (88 + real i / 5)) (Some ''MEDIUM'')) [0..<20]
     @ [exampleLap 21 (Some 115) (Some ''MEDIUM'')]"

text \<open>Ten laps: five of 90 seconds, four of 100 seconds and one pit lap of 120 seconds.\<close>

definition tenLaps :: "OpenF1Lap list" where
  "tenLaps =
     map (\<lambda>i. exampleLap (int i + 1) (Some 90) (Some ''MEDIUM'')) [0..<5]
     @ map (\<lambda>i. exampleLap (int i + 6) (Some 100) (Some ''MEDIUM'')) [0..<4]
     @ [exampleLap 10 (Some 120) (Some ''MEDIUM'')]"

text \<open>
  Twelve laps on the soft compound, numbered 1 to 12, each a tenth of a second slower
  than the one before; in \<open>zeroDurationLaps\<close> the first of them has the duration 0.
\<close>

definition softLaps :: "OpenF1Lap list" where
  "softLaps = map (\<lambda>i. exampleLap (int i + 1) (Some (90 + real i / 10)) (Some ''soft'')) [0..<12]"

definition zeroDurationLaps :: "OpenF1Lap list" where
  "zeroDurationLaps = exampleLap 1 (Some 0) (Some ''soft'') # tl softLaps"

text \<open>The same twelve laps numbered 0 to 11.\<close>

definition zeroLapNumberLaps :: "OpenF1Lap list" where
  "zeroLapNumberLaps = map (\<lambda>i. exampleLap (int i) (Some (90 + real i / 10)) (Some ''soft'')) [0..<12]"

text \<open>A session with no flying lap: one lap without a duration, one of 250 seconds.\<close>

definition slowLaps :: "OpenF1Lap list" where
  "slowLaps = [exampleLap 1 None None, exampleLap 2 (Some 250) (Some ''SOFT'')]"

text \<open>
  The scenario of the specification (92 s base lap, 20 s pit loss, degradation
  0.13 / 0.09 / 0.065 s per lap) for a race of \<open>n\<close> laps, and an engine input for it.
\<close>

definition scenarioTrack :: "int \<Rightarrow> StaticTrackData" where
  "scenarioTrack n =
     \<lparr>laps = n, pit_loss_seconds = 20, base_lap_time_seconds = 92,
      degradation_per_lap_seconds =
        (\<lambda>c. case c of SOFT \<Rightarrow> 0.13 | MEDIUM \<Rightarrow> 0.09 | HARD \<Rightarrow> 0.065)\<rparr>"

definition scenarioInput :: "int \<Rightarrow> StrategyEngineInput" where
  "scenarioInput n =
     \<lparr>trackName = ''Scenario'', raceYear = 2024, driverName = None,
      rainProbabilityPct = Some 0, mode = Some ModeC,
      tracksData = Some [(''Scenario'', scenarioTrack n)]\<rparr>"

section \<open>Properties of the cost model\<close>

text \<open>
  C4: with the default fuel penalty, the time of a stint of \<open>n\<close> laps is
  \<open>n * baseLap + degPerLap * n * (n + 1) / 2 + 0.015 * n * (n - 1) / 2\<close>, for every
  base lap time, degradation rate and lap count.
\<close>

theorem computeStintTimeSeconds_closed_form:
  "computeStintTimeSeconds baseLap degPerLap n None =
     n * baseLap + degPerLap * n * (n + 1) / 2 + 0.015 * n * (n - 1) / 2"
  by (simp add: computeStintTimeSeconds_def field_simps)

section \<open>Properties of the compound assigner\<close>

lemma recurse_sequences:
  "idx \<le> n \<Longrightarrow> recurse n idx path acc =
     acc @ filter (\<lambda>p. 2 \<le> card (set p)) (map ((@) path) (sequences (n - idx)))"
proof (induction "n - idx" arbitrary: idx path acc)
  case 0
  then have "idx = n" by simp
  then show ?case by (simp add: recurse.simps [of n n])
next
  case (Suc k)
  then have lt: "idx < n" and k: "k = n - (idx + 1)" and le: "idx + 1 \<le> n"
    and Sk: "n - idx = Suc k" by auto
  have "recurse n (Suc idx) (path @ [c]) a =
      a @ filter (\<lambda>p. 2 \<le> card (set p)) (map ((@) (path @ [c])) (sequences k))" for c a
    using Suc.hyps(1) [OF k le] k by simp
  moreover have "map ((@) (path @ [c])) xs = map (\<lambda>s. path @ c # s) xs" for c xs
    by simp
  ultimately have step: "recurse n (Suc idx) (path @ [c]) a =
      a @ filter (\<lambda>p. 2 \<le> card (set p)) (map (\<lambda>s. path @ c # s) (sequences k))" for c a
    by simp
  show ?case
    using lt by (simp add: recurse.simps [of n idx] tyresOrder_def step Sk comp_def)
qed

lemma assignCompounds_sequences:
  "assignCompounds k = filter (\<lambda>p. 2 \<le> card (set p)) (sequences k)"
proof -
  have "map ((@) []) xs = xs" for xs :: "TyreCompound list list"
    by (induction xs) simp_all
  then show ?thesis
    by (simp add: assignCompounds_def recurse_sequences)
qed

lemma TyreCompound_UNIV: "(UNIV :: TyreCompound set) = {SOFT, MEDIUM, HARD}"
  using TyreCompound.exhaust by auto

lemma set_sequences: "set (sequences k) = {p. length p = k}"
proof (induction k)
  case 0
  then show ?case by simp
next
  case (Suc k)
  show ?case
  proof (rule set_eqI)
    fix p :: "TyreCompound list"
    show "p \<in> set (sequences (Suc k)) \<longleftrightarrow> p \<in> {p. length p = Suc k}"
    proof (cases p)
      case Nil
      then show ?thesis using Suc by auto
    next
      case (Cons c q)
      then show ?thesis using Suc by (cases c) auto
    qed
  qed
qed

lemma distinct_sequences: "distinct (sequences k)"
proof (induction k)
  case 0
  then show ?case by simp
next
  case (Suc k)
  then have "distinct (map ((#) c) (sequences k))" for c :: TyreCompound
    by (simp add: distinct_map)
  then show ?case by auto
qed

lemma length_sequences: "length (sequences k) = 3 ^ k"
  by (induction k) simp_all

text \<open>
  C7: \<open>assignCompounds k\<close> holds exactly the sequences of length \<open>k\<close> over the three
  compounds with at least two distinct compounds, each once: it is the enumeration of
  all \<open>3 ^ k\<close> sequences of length \<open>k\<close>, filtered by that predicate. For one stint it
  is empty. (This holds for \<open>k = 0\<close> too.)
\<close>

theorem assignCompounds_exact:
  "set (assignCompounds k) =
     {p. length p = k \<and> set p \<subseteq> {SOFT, MEDIUM, HARD} \<and> 2 \<le> card (set p)}
   \<and> distinct (assignCompounds k)
   \<and> assignCompounds k = filter (\<lambda>p. 2 \<le> card (set p)) (sequences k)
   \<and> set (sequences k) = {p. length p = k \<and> set p \<subseteq> {SOFT, MEDIUM, HARD}}
   \<and> distinct (sequences k) \<and> length (sequences k) = 3 ^ k
   \<and> assignCompounds 1 = []"
proof -
  have univ: "set p \<subseteq> {SOFT, MEDIUM, HARD}" for p
    using TyreCompound_UNIV by auto
  have one: "assignCompounds 1 = []"
    by (simp add: assignCompounds_sequences)
  show ?thesis
    using one univ
    by (auto simp add: assignCompounds_sequences set_sequences distinct_sequences length_sequences)
qed

section \<open>Properties of the candidate generator\<close>

lemma fold_push:
  "fold (\<lambda>d cs. if P d then cs @ [f d] else cs) ds cs0 = cs0 @ map f (filter P ds)"
  by (induction ds arbitrary: cs0) simp_all

lemma fold_append:
  "fold (\<lambda>d cs. cs @ g d) ds cs0 = cs0 @ concat (map g ds)"
  by (induction ds arbitrary: cs0) simp_all

lemma generateCandidateStints_dedup:
  "generateCandidateStints n = map snd (dedup (join ''-'') (candidateStints n) [])"
  unfolding generateCandidateStints_def Let_def fold_push fold_append candidateStints_def dedup_def
  by simp


lemma set_alist_update: "set (AList.update k v al) \<subseteq> insert (k, v) (set al)"
  by (induction al) auto

lemma dedup_snoc: "dedup key (xs @ [x]) uniq = AList.update (key x) x (dedup key xs uniq)"
  by (simp add: dedup_def)

lemma dedup_distinct_keys: "distinct (map fst uniq) \<Longrightarrow> distinct (map fst (dedup key xs uniq))"
proof (induction xs rule: rev_induct)
  case Nil
  then show ?case by (simp add: dedup_def)
next
  case (snoc x xs)
  then show ?case by (simp add: dedup_snoc distinct_update)
qed

lemma dedup_keyed:
  assumes "\<And>k v. (k, v) \<in> set uniq \<Longrightarrow> k = key v"
  shows "(k, v) \<in> set (dedup key xs uniq) \<Longrightarrow> k = key v"
proof (induction xs arbitrary: k v rule: rev_induct)
  case Nil
  then show ?case using assms by (simp add: dedup_def)
next
  case (snoc x xs)
  have "(k, v) \<in> insert (key x, x) (set (dedup key xs uniq))"
    using snoc.prems set_alist_update [of "key x" x "dedup key xs uniq"]
    unfolding dedup_snoc by (rule set_mp [rotated])
  then show ?case
    using snoc.IH by auto
qed

lemma dedup_values:
  "set (map snd (dedup key xs uniq)) \<subseteq> set (map snd uniq) \<union> set xs"
proof (induction xs rule: rev_induct)
  case Nil
  then show ?case by (simp add: dedup_def)
next
  case (snoc x xs)
  have "set (dedup key (xs @ [x]) uniq) \<subseteq> insert (key x, x) (set (dedup key xs uniq))"
    unfolding dedup_snoc by (rule set_alist_update)
  then have "snd ` set (dedup key (xs @ [x]) uniq) \<subseteq> insert x (snd ` set (dedup key xs uniq))"
    by force
  then show ?case using snoc.IH by auto
qed

lemma dedup_distinct_values: "distinct (map snd (dedup key xs []))"
proof -
  let ?u = "dedup key xs []"
  have keyed: "k = key v" if "(k, v) \<in> set ?u" for k v
    using that by (rule dedup_keyed [rotated]) simp
  have "map fst ?u = map (key \<circ> snd) ?u"
  proof (rule map_cong [OF refl])
    fix p
    assume "p \<in> set ?u"
    then show "fst p = (key \<circ> snd) p"
      using keyed [of "fst p" "snd p"] by simp
  qed
  then have eq: "map fst ?u = map key (map snd ?u)"
    by (simp only: map_map)
  have "distinct (map fst ?u)"
    by (rule dedup_distinct_keys) simp
  then have "distinct (map key (map snd ?u))"
    unfolding eq .
  then show ?thesis
    by (rule distinct_map [THEN iffD1, THEN conjunct1])
qed

lemma dedup_covers:
  "c \<in> set xs \<Longrightarrow> \<exists>v. map_of (dedup key xs uniq) (key c) = Some v \<and> key v = key c"
proof (induction xs rule: rev_induct)
  case Nil
  then show ?case by simp
next
  case (snoc x xs)
  show ?case
  proof (cases "key c = key x")
    case True
    then show ?thesis by (simp add: dedup_snoc update_conv')
  next
    case False
    then have "c \<in> set xs" using snoc.prems by auto
    then show ?thesis using snoc.IH False by (simp add: dedup_snoc update_conv')
  qed
qed
lemma candidateStints_sum:
  "c \<in> set (candidateStints n) \<Longrightarrow> sum_list c = n \<and> 1 \<le> length c \<and> length c \<le> 4"
  unfolding candidateStints_def by (auto simp del: upto_rec_numeral)

lemma candidateStints_positive:
  "4 \<le> n \<Longrightarrow> c \<in> set (candidateStints n) \<Longrightarrow> x \<in> set c \<Longrightarrow> 1 \<le> x"
  unfolding candidateStints_def by (auto simp del: upto_rec_numeral max_less_iff_conj)

subsection \<open>The deduplication key is injective\<close>

lemma digit_char_of: "d < 10 \<Longrightarrow> digit_char (char_of (48 + d :: nat))"
  by (simp add: digit_char_def)

lemma of_char_digit: "d < 10 \<Longrightarrow> (of_char (char_of (48 + d :: nat)) :: nat) = 48 + d"
  by simp

lemma decimal_digits_nonempty: "decimal_digits n \<noteq> []"
  by (subst decimal_digits.simps) simp

lemma decimal_digits_digit: "c \<in> set (decimal_digits n) \<Longrightarrow> digit_char c"
proof (induction n arbitrary: c rule: decimal_digits.induct)
  case (1 n)
  show ?case
  proof (cases "n < 10")
    case True
    then show ?thesis
      using "1.prems" by (subst (asm) decimal_digits.simps) (simp add: digit_char_of)
  next
    case False
    then have "c \<in> set (decimal_digits (n div 10)) \<or> c = char_of (48 + n mod 10)"
      using "1.prems" by (subst (asm) decimal_digits.simps) auto
    then show ?thesis
      using "1.IH" False by (auto simp add: digit_char_of)
  qed
qed

lemma digits_value_decimal: "digits_value (decimal_digits n) = n"
proof (induction n rule: decimal_digits.induct)
  case (1 n)
  show ?case
  proof (cases "n < 10")
    case True
    then show ?thesis
      by (subst decimal_digits.simps) (simp add: digits_value_def)
  next
    case False
    then have "digits_value (decimal_digits n) =
        10 * digits_value (decimal_digits (n div 10)) + n mod 10"
      by (subst decimal_digits.simps) (simp add: digits_value_def)
    then show ?thesis using "1.IH" False by simp
  qed
qed

lemma decimal_digits_inj: "decimal_digits a = decimal_digits b \<Longrightarrow> a = b"
  by (metis digits_value_decimal)

lemma minus_not_digit: "\<not> digit_char CHR ''-''"
  by (simp add: digit_char_def)

lemma String_int_nonempty: "String_int x \<noteq> []"
  by (simp add: String_int_def decimal_digits_nonempty)

lemma String_int_tl: "CHR ''-'' \<notin> set (tl (String_int x))"
proof -
  have "CHR ''-'' \<notin> set (decimal_digits n)" for n
    using decimal_digits_digit minus_not_digit by blast
  moreover have "set (tl xs) \<subseteq> set xs" for xs :: string
    by (cases xs) auto
  ultimately show ?thesis
    by (auto simp add: String_int_def)
qed

lemma String_int_inj: "String_int a = String_int b \<Longrightarrow> a = b"
proof -
  assume eq: "String_int a = String_int b"
  have nd: "hd (decimal_digits n) \<noteq> CHR ''-''" for n
    using decimal_digits_digit [of "hd (decimal_digits n)" n] decimal_digits_nonempty [of n]
      minus_not_digit by auto
  consider "a < 0" "b < 0" | "a < 0" "0 \<le> b" | "0 \<le> a" "b < 0" | "0 \<le> a" "0 \<le> b"
    by linarith
  then show ?thesis
  proof cases
    case 1
    then have "nat (- a) = nat (- b)"
      using eq by (simp add: String_int_def decimal_digits_inj)
    then show ?thesis using 1 by simp
  next
    case 2
    then have "decimal_digits (nat b) = CHR ''-'' # decimal_digits (nat (- a))"
      using eq by (simp add: String_int_def)
    then have "hd (decimal_digits (nat b)) = CHR ''-''"
      by simp
    then show ?thesis using nd by simp
  next
    case 3
    then have "decimal_digits (nat a) = CHR ''-'' # decimal_digits (nat (- b))"
      using eq by (simp add: String_int_def)
    then have "hd (decimal_digits (nat a)) = CHR ''-''"
      by simp
    then show ?thesis using nd by simp
  next
    case 4
    then have "nat a = nat b"
      using eq by (simp add: String_int_def decimal_digits_inj)
    then show ?thesis using 4 by simp
  qed
qed

text \<open>A number followed by nothing or by a separator: the number ends where the rest begins.\<close>

lemma String_int_prefix:
  assumes "String_int x @ r = String_int y @ r'"
    and "r = [] \<or> hd r = CHR ''-''" and "r' = [] \<or> hd r' = CHR ''-''"
  shows "String_int x = String_int y \<and> r = r'"
proof -
  have no_ext: "us = []"
    if "String_int a = String_int b @ us" and "us = [] \<or> hd us = CHR ''-''" for a b us
  proof (rule ccontr)
    assume ne: "us \<noteq> []"
    then have "hd us = CHR ''-''" using that(2) by simp
    moreover have "tl (String_int a) = tl (String_int b) @ us"
      using that(1) String_int_nonempty [of b] by (cases "String_int b") auto
    ultimately have "CHR ''-'' \<in> set (tl (String_int a))"
      using ne by (cases us) auto
    then show False using String_int_tl by simp
  qed
  from assms(1) obtain us where
    "(String_int x = String_int y @ us \<and> us @ r = r') \<or> (String_int x @ us = String_int y \<and> r = us @ r')"
    by (auto simp add: append_eq_append_conv2)
  then show ?thesis
  proof
    assume h: "String_int x = String_int y @ us \<and> us @ r = r'"
    have "us = [] \<or> hd us = CHR ''-''"
      using h assms(3) by (cases us) auto
    then have "us = []" using no_ext h by blast
    then show ?thesis using h by simp
  next
    assume h: "String_int x @ us = String_int y \<and> r = us @ r'"
    have "us = [] \<or> hd us = CHR ''-''"
      using h assms(2) by (cases us) auto
    then have "us = []" using no_ext [of y x us] h by simp
    then show ?thesis using h by simp
  qed
qed

lemma join_Cons: "join ''-'' (x # xs) = String_int x @ (if xs = [] then [] else CHR ''-'' # join ''-'' xs)"
  by (cases xs) simp_all

lemma join_inj: "join ''-'' xs = join ''-'' ys \<Longrightarrow> xs = ys"
proof (induction xs arbitrary: ys)
  case Nil
  then show ?case
    using String_int_nonempty by (cases ys) (auto simp add: join_Cons)
next
  case (Cons x xs)
  then obtain y ys' where ys: "ys = y # ys'"
    using String_int_nonempty by (cases ys) (auto simp add: join_Cons)
  let ?r = "if xs = [] then [] else CHR ''-'' # join ''-'' xs"
  let ?r' = "if ys' = [] then [] else CHR ''-'' # join ''-'' ys'"
  have "String_int x @ ?r = String_int y @ ?r'"
    using Cons.prems ys by (simp only: join_Cons)
  then have "String_int x = String_int y \<and> ?r = ?r'"
    by (rule String_int_prefix) simp_all
  then have xy: "x = y" and r: "?r = ?r'"
    using String_int_inj by auto
  have "join ''-'' xs = join ''-'' ys'"
  proof (cases "xs = []")
    case True
    then have "ys' = []" using r by (auto split: if_splits)
    then show ?thesis using True by simp
  next
    case False
    then show ?thesis using r by (auto split: if_splits)
  qed
  then show ?case using Cons.IH xy ys by simp
qed

subsection \<open>The candidates returned\<close>

lemma dedup_values_empty: "set (map snd (dedup key xs [])) \<subseteq> set xs"
  using dedup_values [of key xs "[]"] by simp

lemma dedup_complete:
  assumes "\<And>a b. key a = key b \<Longrightarrow> a = b" and "c \<in> set xs"
  shows "c \<in> set (map snd (dedup key xs uniq))"
proof -
  obtain v where v: "map_of (dedup key xs uniq) (key c) = Some v" and kv: "key v = key c"
    using dedup_covers [OF assms(2)] by blast
  from kv have "v = c" by (rule assms(1))
  then have "(key c, c) \<in> set (dedup key xs uniq)"
    using v by (simp only: map_of_SomeD)
  then have "snd (key c, c) \<in> snd ` set (dedup key xs uniq)"
    by (rule imageI)
  then show ?thesis by simp
qed

lemma generateCandidateStints_set:
  "set (generateCandidateStints n) = set (candidateStints n)"
  unfolding generateCandidateStints_dedup
  using dedup_values_empty [of "join ''-''" "candidateStints n"]
    dedup_complete [of "join ''-''" _ "candidateStints n" "[]", OF join_inj]
  by blast

lemma generateCandidateStints_distinct: "distinct (generateCandidateStints n)"
  by (simp add: generateCandidateStints_dedup dedup_distinct_values)

lemma generateCandidateStints_sound:
  assumes "c \<in> set (generateCandidateStints n)"
  shows "sum_list c = n \<and> 1 \<le> length c \<and> length c \<le> 4 \<and> (4 \<le> n \<longrightarrow> (\<forall>x \<in> set c. 1 \<le> x))"
proof -
  have c: "c \<in> set (candidateStints n)"
    using assms by (simp only: generateCandidateStints_set)
  have "\<forall>x \<in> set c. 1 \<le> x" if "4 \<le> n"
    using candidateStints_positive [OF that c] by blast
  then show ?thesis
    using candidateStints_sum [OF c] by blast
qed

lemma four_stint_candidate:
  "[max 1 (n div 4), max 1 (n div 4), max 1 (n div 4), n - 3 * max 1 (n div 4)]
     \<in> set (generateCandidateStints n)"
  by (simp add: generateCandidateStints_set candidateStints_def del: upto_rec_numeral)


text \<open>
  C3, at the failing input: for a race of three laps the generator returns the
  four-stint candidate \<open>[1, 1, 1, 0]\<close>, whose last entry is not positive; for one lap it
  returns \<open>[1, 1, 1, -2]\<close>. (From four laps on every candidate is positive, see
  \<open>generateCandidateStints_sound\<close>.)
\<close>

theorem generateCandidateStints_three_laps:
  "generateCandidateStints 3 = [[1, 2], [2, 1], [1, 1, 1], [1, 1, 1, 0], [3]]
   \<and> generateCandidateStints 1 = [[1, 1, 1, - 2], [1]]"
  by code_simp

section \<open>Properties of the search driver\<close>

lemma insert_cmp_zero: "insert_cmp (\<lambda>a b. 0) x ys = x # ys"
  by (cases ys) simp_all

lemma sort_cmp_zero: "sort_cmp (\<lambda>a b. 0) xs = xs"
  by (induction xs) (simp_all add: sort_cmp_def insert_cmp_zero)

lemma searchCompounds_Some:
  "best \<noteq> None \<or> css \<noteq> [] \<Longrightarrow> searchCompounds track lps css best \<noteq> None"
proof (induction css arbitrary: best)
  case Nil
  then show ?case by simp
next
  case (Cons cs css)
  show ?case
    using Cons.IH by (simp add: Let_def)
qed

lemma searchCompounds_invariant:
  assumes "\<And>p. best = Some p \<Longrightarrow> P p"
    and "\<And>cs. cs \<in> set css \<Longrightarrow> P (planFor track lps cs)"
    and "searchCompounds track lps css best = Some r"
  shows "P r"
  using assms
proof (induction css arbitrary: best)
  case Nil
  then show ?case by simp
next
  case (Cons cs css)
  define plan where "plan = planFor track lps cs"
  define best' where "best' = (case best of None \<Rightarrow> plan
     | Some b \<Rightarrow> if totalTimeSeconds plan < totalTimeSeconds b then plan else b)"
  have eq: "searchCompounds track lps (cs # css) best =
      (if numStops plan > numStops best' + 1 then Some best'
       else searchCompounds track lps css (Some best'))"
    unfolding plan_def best'_def by (simp add: Let_def)
  have Pplan: "P plan"
    using Cons.prems(2) by (simp add: plan_def)
  have Pbest': "P best'"
    using Pplan Cons.prems(1) by (auto simp: best'_def split: option.splits)
  show ?case
  proof (cases "numStops plan > numStops best' + 1")
    case True
    then have "r = best'"
      using Cons.prems(3) unfolding eq by simp
    then show ?thesis using Pbest' by simp
  next
    case False
    then have "searchCompounds track lps css (Some best') = Some r"
      using Cons.prems(3) unfolding eq by simp
    then show ?thesis
      using Cons.IH [of "Some best'"] Pbest' Cons.prems(2) by simp
  qed
qed

lemma searchPartitions_fold:
  "searchPartitions track ps = fold (searchStep track) ps None"
proof -
  have "searchStep track = (\<lambda>x. searchCompounds track x (assignCompounds (length x)))"
    by (intro ext) (simp add: searchStep_def)
  then show ?thesis
    by (simp add: searchPartitions_def sort_cmp_zero Let_def)
qed

lemma fold_searchStep_Some:
  "best \<noteq> None \<or> (\<exists>lps \<in> set ps. assignCompounds (length lps) \<noteq> []) \<Longrightarrow>
   fold (searchStep track) ps best \<noteq> None"
proof (induction ps arbitrary: best)
  case Nil
  then show ?case by simp
next
  case (Cons lps ps)
  show ?case
  proof (cases "best \<noteq> None \<or> assignCompounds (length lps) \<noteq> []")
    case True
    then have "searchStep track lps best \<noteq> None"
      unfolding searchStep_def by (rule searchCompounds_Some)
    then show ?thesis using Cons.IH by simp
  next
    case False
    then have "\<exists>l \<in> set ps. assignCompounds (length l) \<noteq> []"
      using Cons.prems by auto
    then show ?thesis using Cons.IH by simp
  qed
qed

lemma fold_searchStep_invariant:
  assumes "\<And>p. best = Some p \<Longrightarrow> P p"
    and "\<And>lps cs. lps \<in> set ps \<Longrightarrow> cs \<in> set (assignCompounds (length lps)) \<Longrightarrow>
           P (planFor track lps cs)"
    and "fold (searchStep track) ps best = Some r"
  shows "P r"
  using assms
proof (induction ps arbitrary: best)
  case Nil
  then show ?case by simp
next
  case (Cons lps ps)
  have "P p" if "searchStep track lps best = Some p" for p
    using searchCompounds_invariant [of best P "assignCompounds (length lps)" track lps p]
      Cons.prems(1,2) that
    by (simp add: searchStep_def)
  then show ?case
    using Cons.IH [of "searchStep track lps best"] Cons.prems(2,3) by simp
qed

lemma planFor_stints:
  "length cs = length lps \<Longrightarrow>
   map stint_laps (stints (planFor track lps cs)) = lps \<and>
   map compound (stints (planFor track lps cs)) = cs \<and>
   numStops (planFor track lps cs) = int (length lps) - 1"
proof -
  assume len: "length cs = length lps"
  have cs: "map ((!) cs) [0..<length lps] = cs"
    using map_nth [of cs] by (simp only: len)
  show ?thesis
    by (simp add: planFor_def Let_def comp_def len cs map_nth)
qed

lemma searchPartitions_result:
  assumes "searchPartitions track ps = Some r"
  shows "\<exists>lps \<in> set ps. length (stints r) = length lps \<and> map stint_laps (stints r) = lps \<and>
           2 \<le> card (set (map compound (stints r))) \<and> numStops r = int (length lps) - 1"
proof -
  let ?P = "\<lambda>r. \<exists>lps \<in> set ps. length (stints r) = length lps \<and> map stint_laps (stints r) = lps \<and>
           2 \<le> card (set (map compound (stints r))) \<and> numStops r = int (length lps) - 1"
  have "?P (planFor track lps cs)"
    if "lps \<in> set ps" and "cs \<in> set (assignCompounds (length lps))" for lps cs
  proof -
    have len: "length cs = length lps" and two: "2 \<le> card (set cs)"
      using that(2) by (simp_all add: assignCompounds_sequences set_sequences)
    have "length (stints (planFor track lps cs)) = length lps"
      using len by (simp add: planFor_def Let_def)
    then show ?thesis
      using planFor_stints [OF len, of track] that(1) two by auto
  qed
  then show ?thesis
    using fold_searchStep_invariant [of None ?P ps track r] assms
    by (simp add: searchPartitions_fold)
qed

lemma assignCompounds_four: "length lps = 4 \<Longrightarrow> assignCompounds (length lps) \<noteq> []"
proof -
  assume "length lps = 4"
  moreover have "[SOFT, MEDIUM, SOFT, SOFT] \<in> set (assignCompounds 4)"
    by (simp add: assignCompounds_sequences set_sequences card_insert_if)
  ultimately show ?thesis by auto
qed

lemma searchPartitions_Some: "searchPartitions track (generateCandidateStints n) \<noteq> None"
proof -
  have "\<exists>lps \<in> set (generateCandidateStints n). assignCompounds (length lps) \<noteq> []"
    using four_stint_candidate [of n]
    by (intro bexI [where x = "[max 1 (n div 4), max 1 (n div 4), max 1 (n div 4), n - 3 * max 1 (n div 4)]"]
          assignCompounds_four) simp_all
  then show ?thesis
    by (simp add: searchPartitions_fold fold_searchStep_Some)
qed


text \<open>
  The outcomes of the engine: without a table it fails with the missing-table error;
  with a track name that the property read does not find, with the unknown-track
  error; with a track name that is a key of the table the search records a plan and the
  engine returns it, whatever the profile; with a track name that is no key of the
  table but a property of \<open>Object.prototype\<close> it fails with a \<open>TypeError\<close>. The error
  "Failed to compute strategy" is never returned.
\<close>

lemma predictBestStrategy_outcomes:
  "(tracksData input = None \<longrightarrow> predictBestStrategy input = Inl TracksDataRequired)
   \<and> (\<forall>tracks. tracksData input = Some tracks
           \<and> map_of tracks (trackName input) = None
           \<and> trackName input \<notin> set objectPrototypeKeys
         \<longrightarrow> predictBestStrategy input = Inl (UnknownTrack (trackName input)))
   \<and> (\<forall>tracks. tracksData input = Some tracks
           \<and> map_of tracks (trackName input) = None
           \<and> trackName input \<in> set objectPrototypeKeys
         \<longrightarrow> predictBestStrategy input = Inl TypeError)
   \<and> (\<forall>tracks track. tracksData input = Some tracks
           \<and> map_of tracks (trackName input) = Some track
         \<longrightarrow> searchPartitions track (generateCandidateStints (laps track)) \<noteq> None
             \<and> (\<exists>plan. predictBestStrategy input = Inr plan))
   \<and> predictBestStrategy input \<noteq> Inl FailedToComputeStrategy"
  by (auto simp add: predictBestStrategy_def getProperty_def searchPartitions_Some
      split: option.splits)

text \<open>
  C8, at the failing input: the table holds the scenario profile under the key
  \<open>Scenario\<close> and the requested track name is \<open>constructor\<close>. The name is not a key of
  the table, but the engine does not fail with the unknown-track error: the property
  read finds \<open>Object.prototype.constructor\<close> and the call ends in a \<open>TypeError\<close>, an
  error that is neither the missing-table error nor the unknown-track error.
\<close>

theorem predictBestStrategy_inherited_key:
  "map_of [(''Scenario'', scenarioTrack 58)] ''constructor'' = None
   \<and> tracksData ((scenarioInput 58)\<lparr>trackName := ''constructor''\<rparr>)
       = Some [(''Scenario'', scenarioTrack 58)]
   \<and> predictBestStrategy ((scenarioInput 58)\<lparr>trackName := ''constructor''\<rparr>) = Inl TypeError"
  by (simp add: predictBestStrategy_def getProperty_def scenarioInput_def objectPrototypeKeys_def)

text \<open>
  C10: the result of the engine is a function of \<open>trackName\<close> and \<open>tracksData\<close>: two
  inputs that agree on both give the same result, whatever their \<open>raceYear\<close>,
  \<open>driverName\<close>, \<open>rainProbabilityPct\<close> and \<open>mode\<close>.
\<close>

theorem predictBestStrategy_depends_on_track_only:
  "trackName i1 = trackName i2 \<Longrightarrow> tracksData i1 = tracksData i2 \<Longrightarrow>
   predictBestStrategy i1 = predictBestStrategy i2"
  by (simp add: predictBestStrategy_def split: option.splits property.splits)

theorem predictBestStrategy_depends_on_track_only_witness:
  "predictBestStrategy (scenarioInput 58) =
   predictBestStrategy ((scenarioInput 58)\<lparr>raceYear := 1999, driverName := Some ''Driver'',
      rainProbabilityPct := Some 80, mode := Some ModeA\<rparr>)"
  using predictBestStrategy_depends_on_track_only [of "scenarioInput 58"
      "(scenarioInput 58)\<lparr>raceYear := 1999, driverName := Some ''Driver'',
         rainProbabilityPct := Some 80, mode := Some ModeA\<rparr>"]
  by simp

text \<open>
  From four laps on, the plan returned has between 2 and 4 stints of at least one lap
  each, whose lap counts sum to the race distance, on at least two compounds.
\<close>

lemma predictBestStrategy_plan_shape:
  assumes "tracksData input = Some tracks" and "getProperty tracks (trackName input) = Own track"
    and "4 \<le> laps track"
  shows "\<exists>plan. predictBestStrategy input = Inr plan
           \<and> sum_list (map stint_laps (stints plan)) = laps track
           \<and> 2 \<le> length (stints plan) \<and> length (stints plan) \<le> 4
           \<and> 2 \<le> card (set (map compound (stints plan)))
           \<and> (\<forall>s \<in> set (stints plan). 1 \<le> stint_laps s)"
proof -
  obtain plan where plan: "searchPartitions track (generateCandidateStints (laps track)) = Some plan"
    using searchPartitions_Some by blast
  then obtain lps where lps: "lps \<in> set (generateCandidateStints (laps track))"
    and len: "length (stints plan) = length lps" and sl: "map stint_laps (stints plan) = lps"
    and two: "2 \<le> card (set (map compound (stints plan)))"
    using searchPartitions_result by blast
  have snd: "sum_list lps = laps track \<and> length lps \<le> 4 \<and> (\<forall>x \<in> set lps. 1 \<le> x)"
    using generateCandidateStints_sound [OF lps] assms(3) by simp
  have "card (set (map compound (stints plan))) \<le> length (stints plan)"
    using card_length [of "map compound (stints plan)"] by simp
  then have "2 \<le> length (stints plan)" using two by simp
  moreover have "\<forall>s \<in> set (stints plan). 1 \<le> stint_laps s"
    using snd sl by auto
  moreover have "predictBestStrategy input = Inr plan"
    using assms(1,2) plan by (simp add: predictBestStrategy_def)
  ultimately show ?thesis
    using snd len sl two by auto
qed

text \<open>
  C1, at the failing inputs: for a race of one lap the candidates are \<open>[1, 1, 1, -2]\<close>
  and \<open>[1]\<close>, and only the first has a legal compound assignment. So whatever the
  profile under the requested key, as long as its lap count is 1, the engine returns a
  plan of four stints with the lap counts 1, 1, 1 and \<open>-2\<close>: its last stint does not
  have a lap count of at least 1. (From four laps on, \<open>predictBestStrategy_plan_shape\<close>
  gives the shape of the plan.)
\<close>

theorem predictBestStrategy_one_lap:
  assumes "tracksData input = Some tracks" and "getProperty tracks (trackName input) = Own track"
    and "laps track = 1"
  shows "\<exists>plan. predictBestStrategy input = Inr plan
           \<and> map stint_laps (stints plan) = [1, 1, 1, - 2]"
proof -
  have cands: "generateCandidateStints 1 = [[1, 1, 1, - 2], [1]]"
    by code_simp
  obtain plan where plan: "searchPartitions track (generateCandidateStints 1) = Some plan"
    using searchPartitions_Some by blast
  then obtain lps where lps: "lps \<in> set (generateCandidateStints 1)"
    and len: "length (stints plan) = length lps" and sl: "map stint_laps (stints plan) = lps"
    and two: "2 \<le> card (set (map compound (stints plan)))"
    using searchPartitions_result by blast
  have "card (set (map compound (stints plan))) \<le> length (stints plan)"
    using card_length [of "map compound (stints plan)"] by simp
  then have "2 \<le> length lps" using two len by simp
  then have "lps = [1, 1, 1, - 2]"
    using lps by (auto simp add: cands)
  moreover have "predictBestStrategy input = Inr plan"
    using assms plan by (simp add: predictBestStrategy_def)
  ultimately show ?thesis using sl by simp
qed

theorem predictBestStrategy_one_lap_witness:
  "tracksData (scenarioInput 1) = Some [(''Scenario'', scenarioTrack 1)]
   \<and> getProperty [(''Scenario'', scenarioTrack 1)] (trackName (scenarioInput 1))
       = Own (scenarioTrack 1)
   \<and> laps (scenarioTrack 1) = 1
   \<and> (\<exists>plan. predictBestStrategy (scenarioInput 1) = Inr plan
          \<and> map stint_laps (stints plan) = [1, 1, 1, - 2])"
proof -
  have td: "tracksData (scenarioInput 1) = Some [(''Scenario'', scenarioTrack 1)]"
    by (simp add: scenarioInput_def)
  have gp: "getProperty [(''Scenario'', scenarioTrack 1)] (trackName (scenarioInput 1))
      = Own (scenarioTrack 1)"
    by (simp add: scenarioInput_def getProperty_def)
  have l: "laps (scenarioTrack 1) = 1"
    by (simp add: scenarioTrack_def)
  show ?thesis
    using predictBestStrategy_one_lap [OF td gp l] td gp l by simp
qed

section \<open>Properties of binary64 rounding\<close>

lemma pow2_powr: "pow2 e = 2 powr (real_of_int e)"
proof (cases "0 \<le> e")
  case True
  have "(2::real) powr (real (nat e)) = 2 ^ nat e"
    by (simp add: powr_realpow)
  moreover have "real (nat e) = real_of_int e" using True by simp
  ultimately show ?thesis
    using True by (simp add: pow2_def)
next
  case False
  have "(2::real) powr (real (nat (- e))) = 2 ^ nat (- e)"
    by (simp add: powr_realpow)
  moreover have "real (nat (- e)) = - real_of_int e" using False by simp
  ultimately have "(2::real) powr (- real_of_int e) = 2 ^ nat (- e)"
    by simp
  then have "inverse ((2::real) powr (real_of_int e)) = 2 ^ nat (- e)"
    by (simp add: powr_minus)
  then have "(2::real) powr (real_of_int e) = inverse (2 ^ nat (- e))"
    by (metis inverse_inverse_eq)
  then have "(2::real) powr (real_of_int e) = 1 / 2 ^ nat (- e)"
    by (simp add: divide_inverse)
  then show ?thesis
    using False by (simp add: pow2_def)
qed

lemma pow2_pos: "0 < pow2 e"
  by (simp add: pow2_powr)

lemma pow2_add: "pow2 (a + b) = pow2 a * pow2 b"
  by (simp add: pow2_powr powr_add)

lemma pow2_le_iff: "pow2 a \<le> pow2 b \<longleftrightarrow> a \<le> b"
  by (simp add: pow2_powr)

lemma pow2_less_iff: "pow2 a < pow2 b \<longleftrightarrow> a < b"
  by (simp add: pow2_powr)

lemma pow2_nat: "pow2 (int n) = 2 ^ n"
  by (simp add: pow2_def)

lemma pow2_zero: "pow2 0 = 1"
  by (simp add: pow2_def)

lemma bitlength_bounds: "0 < n \<Longrightarrow> 2 ^ (bitlength n - 1) \<le> n \<and> n < 2 ^ bitlength n"
proof (induction n rule: bitlength.induct)
  case (1 n)
  show ?case
  proof (cases "n div 2 = 0")
    case True
    then have "n = 1" using "1.prems" by auto
    then show ?thesis
      by (simp add: bitlength.simps [of "Suc 0"] bitlength.simps [of 0])
  next
    case False
    then have ih: "2 ^ (bitlength (n div 2) - 1) \<le> n div 2 \<and> n div 2 < 2 ^ bitlength (n div 2)"
      using "1.IH" "1.prems" by simp
    have pos: "0 < bitlength (n div 2)"
      using False by (simp add: bitlength.simps [of "n div 2"])
    have bl: "bitlength n = Suc (bitlength (n div 2))"
      using "1.prems" by (simp add: bitlength.simps [of n])
    obtain m where m: "bitlength (n div 2) = Suc m"
      using pos by (cases "bitlength (n div 2)") simp_all
    have lo: "2 ^ m \<le> n div 2" and hi: "n div 2 < 2 * 2 ^ m"
      using ih by (simp_all add: m)
    have "2 * (n div 2) \<le> n" by simp
    then have "2 * 2 ^ m \<le> n" using lo by linarith
    moreover have "n < 2 * (n div 2) + 2" by presburger
    then have "n < 2 * (2 * 2 ^ m)" using hi by linarith
    ultimately show ?thesis
      by (simp add: bl m)
  qed
qed


lemma bitlength_pos: "0 < n \<Longrightarrow> 0 < bitlength n"
  by (simp add: bitlength.simps [of n])

lemma binade_bounds:
  assumes "0 < x"
  shows "pow2 (binade x) \<le> x \<and> x < pow2 (binade x + 1)"
proof (cases "1 \<le> x")
  case True
  define n where "n = nat \<lfloor>x\<rfloor>"
  define b where "b = bitlength n"
  have n: "0 < n" using True by (simp add: n_def)
  have b: "0 < b" using n by (simp add: b_def bitlength_pos)
  have bb: "2 ^ (b - 1) \<le> n" "n < 2 ^ b"
    using bitlength_bounds [OF n] by (simp_all add: b_def)
  have "0 \<le> \<lfloor>x\<rfloor>" using True by simp
  then have "real n = of_int \<lfloor>x\<rfloor>" by (simp add: n_def)
  then have nx: "real n \<le> x" "x < real n + 1"
    by linarith+
  have bin: "binade x = int (b - 1)"
    using True b by (simp add: binade_def n_def b_def)
  have "real (2 ^ (b - 1)) \<le> real n"
    using bb(1) by (simp only: of_nat_le_iff)
  then have p1: "(2::real) ^ (b - 1) \<le> real n"
    by simp
  have lo: "pow2 (binade x) \<le> x"
    unfolding bin pow2_nat using p1 nx(1) by linarith
  have "Suc n \<le> 2 ^ b"
    using bb(2) by simp
  then have "real (Suc n) \<le> real (2 ^ b)"
    by (simp only: of_nat_le_iff)
  then have "real n + 1 \<le> real (2 ^ b)"
    by simp
  then have p2: "real n + 1 \<le> (2::real) ^ b"
    by simp
  have "binade x + 1 = int b"
    using b by (simp add: bin)
  then have hi: "x < pow2 (binade x + 1)"
    unfolding pow2_nat using p2 nx(2) by (simp add: pow2_nat)
  show ?thesis using lo hi by simp
next
  case False
  define y where "y = 1 / x"
  define n where "n = nat (\<lceil>y\<rceil> - 1)"
  define b where "b = bitlength n"
  have y: "1 < y" using False assms by (simp add: y_def)
  then have c: "2 \<le> \<lceil>y\<rceil>" by linarith
  have n: "0 < n" using c by (simp add: n_def)
  have b: "0 < b" using n by (simp add: b_def bitlength_pos)
  have bb: "2 ^ (b - 1) \<le> n" "n < 2 ^ b"
    using bitlength_bounds [OF n] by (simp_all add: b_def)
  have "real n = of_int \<lceil>y\<rceil> - 1" using c by (simp add: n_def)
  then have ny: "real n < y" "y \<le> real n + 1"
    by linarith+
  have bin: "binade x = - int b"
    using False by (simp add: binade_def n_def b_def y_def)
  have "Suc n \<le> 2 ^ b"
    using bb(2) by simp
  then have "real (Suc n) \<le> real (2 ^ b)"
    by (simp only: of_nat_le_iff)
  then have "real n + 1 \<le> real (2 ^ b)"
    by simp
  then have "real n + 1 \<le> (2::real) ^ b"
    by simp
  then have "y \<le> 2 ^ b" using ny(2) by linarith
  then have "1 / 2 ^ b \<le> x"
    using assms by (simp add: y_def field_simps)
  then have lo: "pow2 (binade x) \<le> x"
    using b by (simp add: bin pow2_def)
  have "real (2 ^ (b - 1)) \<le> real n"
    using bb(1) by (simp only: of_nat_le_iff)
  then have "(2::real) ^ (b - 1) \<le> real n"
    by simp
  then have "2 ^ (b - 1) < y" using ny(1) by linarith
  then have x_lt: "x < 1 / 2 ^ (b - 1)"
    using assms by (simp add: y_def field_simps)
  have "pow2 (binade x + 1) = 1 / 2 ^ (b - 1)"
  proof (cases "b = 1")
    case True
    then show ?thesis by (simp add: bin pow2_def)
  next
    case False
    then have "nat (int b - 1) = b - 1" "\<not> 0 \<le> 1 - int b"
      using b by simp_all
    then show ?thesis
      by (simp add: bin pow2_def)
  qed
  then have hi: "x < pow2 (binade x + 1)"
    using x_lt by simp
  show ?thesis using lo hi by simp
qed

lemma binade_ge: "0 < x \<Longrightarrow> pow2 a \<le> x \<Longrightarrow> a \<le> binade x"
proof -
  assume "0 < x" and "pow2 a \<le> x"
  then have "pow2 a < pow2 (binade x + 1)"
    using binade_bounds [of x] by simp
  then show ?thesis by (simp add: pow2_less_iff)
qed

lemma binade_le: "0 < x \<Longrightarrow> x < pow2 (a + 1) \<Longrightarrow> binade x \<le> a"
proof -
  assume "0 < x" and "x < pow2 (a + 1)"
  then have "pow2 (binade x) < pow2 (a + 1)"
    using binade_bounds [of x] by simp
  then show ?thesis by (simp add: pow2_less_iff)
qed

lemma binade_mono: "0 < x \<Longrightarrow> x \<le> y \<Longrightarrow> binade x \<le> binade y"
proof -
  assume x: "0 < x" and xy: "x \<le> y"
  then have "pow2 (binade x) \<le> y"
    using binade_bounds [of x] by simp
  then show ?thesis
    using x xy by (intro binade_ge) simp_all
qed


lemma round_half_even_floor:
  "\<lfloor>y\<rfloor> \<le> round_half_even y \<and> round_half_even y \<le> \<lfloor>y\<rfloor> + 1"
  by (simp add: round_half_even_def Let_def)

lemma round_half_even_int: "round_half_even (of_int n) = n"
  by (simp add: round_half_even_def Let_def)

lemma round_half_even_ge: "of_int a \<le> y \<Longrightarrow> a \<le> round_half_even y"
proof -
  assume "of_int a \<le> y"
  then have "a \<le> \<lfloor>y\<rfloor>" by (simp add: le_floor_iff)
  then show ?thesis using round_half_even_floor [of y] by linarith
qed

lemma round_half_even_le: "y \<le> of_int b \<Longrightarrow> round_half_even y \<le> b"
proof (cases "y = of_int b")
  case True
  then show ?thesis by (simp add: round_half_even_int)
next
  case False
  assume "y \<le> of_int b"
  then have "y < of_int b" using False by simp
  then have "\<lfloor>y\<rfloor> < b" by (simp add: floor_less_iff)
  then show ?thesis using round_half_even_floor [of y] by linarith
qed

lemma round_half_even_error: "\<bar>of_int (round_half_even y) - y\<bar> \<le> 1 / 2"
proof -
  have "of_int \<lfloor>y\<rfloor> \<le> y" "y < of_int \<lfloor>y\<rfloor> + 1"
    by linarith+
  then show ?thesis
    by (auto simp add: round_half_even_def Let_def)
qed

lemma ulp_pos: "0 < ulp x"
  by (simp add: ulp_def pow2_pos)

lemma round64_pos: "0 < x \<Longrightarrow> round64 x = of_int (round_half_even (x / ulp x)) * ulp x"
  by (simp add: round64_def)

lemma round64_ge:
  assumes "0 < x" and "c / ulp x \<in> \<int>" and "c \<le> x"
  shows "c \<le> round64 x"
proof -
  obtain n :: int where n: "c / ulp x = of_int n"
    using assms(2) by (auto elim: Ints_cases)
  have "c / ulp x \<le> x / ulp x"
    using assms(3) ulp_pos [of x] by (simp add: divide_right_mono)
  then have "n \<le> round_half_even (x / ulp x)"
    unfolding n by (rule round_half_even_ge)
  then have "of_int n * ulp x \<le> of_int (round_half_even (x / ulp x)) * ulp x"
    using ulp_pos [of x] by simp
  moreover have "of_int n * ulp x = c"
    using n ulp_pos [of x] by (simp add: field_simps)
  ultimately show ?thesis
    using assms(1) by (simp add: round64_pos)
qed

lemma round64_le:
  assumes "0 < x" and "c / ulp x \<in> \<int>" and "x \<le> c"
  shows "round64 x \<le> c"
proof -
  obtain n :: int where n: "c / ulp x = of_int n"
    using assms(2) by (auto elim: Ints_cases)
  have "x / ulp x \<le> c / ulp x"
    using assms(3) ulp_pos [of x] by (simp add: divide_right_mono)
  then have "round_half_even (x / ulp x) \<le> n"
    unfolding n by (rule round_half_even_le)
  then have "of_int (round_half_even (x / ulp x)) * ulp x \<le> of_int n * ulp x"
    using ulp_pos [of x] by simp
  moreover have "of_int n * ulp x = c"
    using n ulp_pos [of x] by (simp add: field_simps)
  ultimately show ?thesis
    using assms(1) by (simp add: round64_pos)
qed

lemma round64_error:
  assumes "0 < x"
  shows "\<bar>round64 x - x\<bar> \<le> ulp x / 2"
proof -
  let ?r = "round_half_even (x / ulp x)"
  have "\<bar>of_int ?r - x / ulp x\<bar> \<le> 1 / 2"
    by (rule round_half_even_error)
  then have "\<bar>of_int ?r - x / ulp x\<bar> * ulp x \<le> 1 / 2 * ulp x"
    using ulp_pos [of x] by (simp add: mult_right_mono)
  moreover have "\<bar>of_int ?r - x / ulp x\<bar> * ulp x = \<bar>of_int ?r * ulp x - x\<bar>"
  proof -
    have "\<bar>of_int ?r - x / ulp x\<bar> * ulp x = \<bar>(of_int ?r - x / ulp x) * ulp x\<bar>"
      using ulp_pos [of x] by (simp add: abs_mult)
    also have "(of_int ?r - x / ulp x) * ulp x = of_int ?r * ulp x - x"
      using ulp_pos [of x] by (simp add: field_simps)
    finally show ?thesis .
  qed
  ultimately show ?thesis
    using assms by (simp add: round64_pos)
qed

lemma round64_grid:
  assumes "0 < x" and "x / ulp x \<in> \<int>"
  shows "round64 x = x"
proof -
  obtain n :: int where n: "x / ulp x = of_int n"
    using assms(2) by (auto elim: Ints_cases)
  have "of_int n * ulp x = x"
    using n ulp_pos [of x] by (simp add: field_simps)
  then show ?thesis
    using assms(1) by (simp add: round64_pos n round_half_even_int)
qed

lemma is_double_grid:
  assumes "0 < x" and "is_double x"
  shows "x / ulp x \<in> \<int>"
proof -
  have "x = of_int (round_half_even (x / ulp x)) * ulp x"
    using assms by (simp add: is_double_def round64_pos)
  then have "x / ulp x = of_int (round_half_even (x / ulp x))"
    using ulp_pos [of x] by (simp add: field_simps)
  then show ?thesis
    by (metis Ints_of_int)
qed

lemma round64_nonneg: "0 \<le> x \<Longrightarrow> 0 \<le> round64 x"
proof (cases "x = 0")
  case True
  then show ?thesis by (simp add: round64_def)
next
  case False
  assume "0 \<le> x"
  then have x: "0 < x" using False by simp
  have "(0::real) / ulp x \<in> \<int>" by simp
  then show ?thesis
    using round64_ge [OF x, of 0] x by simp
qed

lemma pow2_inverse: "1 / pow2 e = pow2 (- e)"
proof -
  have "pow2 e * pow2 (- e) = 1"
    using pow2_add [of e "- e"] by (simp add: pow2_zero)
  then show ?thesis
    using pow2_pos [of e] by (simp add: field_simps)
qed

lemma pow2_Ints: "0 \<le> e \<Longrightarrow> pow2 e \<in> \<int>"
  by (simp add: pow2_def)

lemma pow2_grid:
  assumes "a \<le> b" and "c / pow2 b \<in> \<int>"
  shows "c / pow2 a \<in> \<int>"
proof -
  have "pow2 b = pow2 (b - a) * pow2 a"
    using pow2_add [of "b - a" a] by simp
  then have "c / pow2 a = (c / pow2 b) * pow2 (b - a)"
    using pow2_pos [of a] pow2_pos [of b] pow2_pos [of "b - a"] by (simp add: field_simps)
  moreover have "pow2 (b - a) \<in> \<int>"
    using assms(1) by (simp add: pow2_Ints)
  ultimately show ?thesis
    using assms(2) Ints_mult [of "c / pow2 b" "pow2 (b - a)"] by simp
qed

lemma int_on_grid: "e \<le> 0 \<Longrightarrow> of_int k / pow2 e \<in> \<int>"
proof -
  assume "e \<le> 0"
  then have "of_int k / pow2 0 \<in> \<int> \<Longrightarrow> of_int k / pow2 e \<in> \<int>"
    by (rule pow2_grid)
  then show ?thesis by (simp add: pow2_zero)
qed

lemma ulp_exponent_mono: "0 < x \<Longrightarrow> x \<le> y \<Longrightarrow> ulp_exponent x \<le> ulp_exponent y"
  using binade_mono [of x y] by (simp add: ulp_exponent_def)

lemma ulp_exponent_small: "0 < x \<Longrightarrow> x < 2 ^ 53 \<Longrightarrow> ulp_exponent x \<le> 0"
proof -
  assume x: "0 < x" and "x < 2 ^ 53"
  then have "x < pow2 (52 + 1)" by (simp add: pow2_def)
  then have "binade x \<le> 52" using x by (rule binade_le [rotated])
  then show ?thesis by (simp add: ulp_exponent_def)
qed


lemma grid_gap:
  fixes a b u :: real
  assumes "0 < u" and "a / u \<in> \<int>" and "b / u \<in> \<int>" and "a < b"
  shows "u \<le> b - a"
proof -
  obtain m :: int where m: "a / u = of_int m"
    using assms(2) by (auto elim: Ints_cases)
  obtain n :: int where n: "b / u = of_int n"
    using assms(3) by (auto elim: Ints_cases)
  have "a / u < b / u"
    using assms(4,1) by (rule divide_strict_right_mono)
  then have "m < n" unfolding m n by simp
  then have "m + 1 \<le> n" by simp
  then have "(of_int m :: real) + 1 \<le> of_int n" by linarith
  then have "a / u + 1 \<le> b / u" unfolding m n .
  then have "(a / u + 1) * u \<le> b / u * u"
    using assms(1) by (intro mult_right_mono) simp_all
  moreover have "(a / u + 1) * u = a + u" "b / u * u = b"
    using assms(1) by (simp_all add: distrib_right)
  ultimately show ?thesis by simp
qed

lemma ulp_grid_le:
  assumes "0 < x" and "x \<le> y" and "c / ulp y \<in> \<int>"
  shows "c / ulp x \<in> \<int>"
  using pow2_grid [OF ulp_exponent_mono [OF assms(1,2)], of c] assms(3)
  by (simp add: ulp_def)

lemma int_ulp_grid: "0 < x \<Longrightarrow> x < 2 ^ 53 \<Longrightarrow> of_int k / ulp x \<in> \<int>"
  by (simp add: ulp_def int_on_grid ulp_exponent_small)

lemma ulp_le_one: "0 < x \<Longrightarrow> x < 2 ^ 53 \<Longrightarrow> ulp x \<le> 1"
  using pow2_le_iff [of "ulp_exponent x" 0] ulp_exponent_small [of x]
  by (simp add: ulp_def pow2_zero)

lemma round64_zero: "round64 0 = 0"
  by (simp add: round64_def)

lemma round64_sub_int:
  assumes "is_double t" and "0 < t" and "t < 2 ^ 53" and "of_int k \<le> t" and "0 \<le> k"
  shows "round64 (t - of_int k) = t - of_int k"
proof (cases "t - of_int k = 0")
  case True
  then show ?thesis by (simp add: round64_zero)
next
  case False
  define r where "r = t - of_int k"
  have r: "0 < r" "r \<le> t"
    using False assms(4,5) by (simp_all add: r_def)
  have "t / ulp t \<in> \<int>"
    using assms(2,1) by (rule is_double_grid)
  moreover have "of_int k / ulp t \<in> \<int>"
    using assms(2,3) by (rule int_ulp_grid)
  ultimately have "t / ulp t - of_int k / ulp t \<in> \<int>"
    by (rule Ints_diff)
  then have "r / ulp t \<in> \<int>"
    by (simp add: diff_divide_distrib r_def)
  with r have "r / ulp r \<in> \<int>"
    by (rule ulp_grid_le)
  with r(1) have "round64 r = r"
    by (rule round64_grid)
  then show ?thesis by (simp add: r_def)
qed

lemma ulp_exponent_normal: "- 1022 \<le> binade x \<Longrightarrow> ulp_exponent x = binade x - 52"
  by (simp add: ulp_exponent_def)

lemma pow2_plus5: "pow2 (e + 5) = 32 * pow2 e"
  using pow2_add [of e 5] by (simp add: pow2_def)

lemma pow2_plus10: "pow2 (e + 10) = 1024 * pow2 e"
  using pow2_add [of e 10] by (simp add: pow2_def)

lemma pow2_minus1: "pow2 (- 1) = 1 / 2"
  by (simp add: pow2_def)

lemma binade_div60:
  assumes "0 < t"
  shows "binade (t / 60) \<le> binade t - 5"
proof -
  have "t < pow2 (binade t + 1)"
    using binade_bounds [OF assms] by simp
  moreover have "pow2 (binade t + 1) = 32 * pow2 (binade t - 5 + 1)"
    using pow2_plus5 [of "binade t - 5 + 1"] by (simp add: add.commute)
  ultimately have "t < 32 * pow2 (binade t - 5 + 1)"
    by simp
  then have "t / 60 < pow2 (binade t - 5 + 1)"
    using assms pow2_pos [of "binade t - 5 + 1"] by simp
  moreover have "0 < t / 60" using assms by simp
  ultimately show ?thesis
    by (rule binade_le [rotated])
qed

lemma floor_round64_div60:
  assumes "is_double t" and "0 \<le> t" and "t < 2 ^ 53"
  shows "\<lfloor>round64 (t / 60)\<rfloor> = \<lfloor>t / 60\<rfloor>"
proof (cases "t = 0")
  case True
  then show ?thesis by (simp add: round64_zero)
next
  case False
  then have t: "0 < t" using assms(2) by simp
  define q where "q = t / 60"
  define K where "K = \<lfloor>q\<rfloor>"
  have tq: "t = 60 * q" by (simp add: q_def)
  have q: "0 < q" "q < 2 ^ 53"
    using t assms(3) by (simp_all add: q_def)
  have K: "of_int K \<le> q" "q < of_int (K + 1)" "0 \<le> K"
    using q(1) by (simp_all add: K_def)
  have gK: "of_int K / ulp q \<in> \<int>" and gK1: "of_int (K + 1) / ulp q \<in> \<int>"
    using q by (rule int_ulp_grid)+
  have lo: "of_int K \<le> round64 q"
    using q(1) gK K(1) by (rule round64_ge)
  have "q \<le> of_int (K + 1)" using K(2) by simp
  with q(1) gK1 have hi: "round64 q \<le> of_int (K + 1)"
    by (rule round64_le)
  have "round64 q \<noteq> of_int (K + 1)"
  proof
    assume eq: "round64 q = of_int (K + 1)"
    have err: "of_int (K + 1) - q \<le> ulp q / 2"
      using round64_error [OF q(1)] unfolding eq by linarith
    have "(1::real) \<le> of_int (K + 1)" using K(3) by simp
    moreover have "ulp q \<le> 1"
      using q by (rule ulp_le_one)
    ultimately have "1 / 2 \<le> q" using err by linarith
    then have "pow2 (- 1) \<le> q" by (simp add: pow2_minus1)
    with q(1) have "- 1 \<le> binade q" by (rule binade_ge)
    then have eq_q: "ulp_exponent q = binade q - 52"
      by (intro ulp_exponent_normal) simp
    have "binade q \<le> binade t - 5"
      unfolding q_def using t by (rule binade_div60)
    then have "ulp_exponent q + 5 \<le> ulp_exponent t"
      unfolding eq_q unfolding ulp_exponent_def by linarith
    then have "pow2 (ulp_exponent q + 5) \<le> pow2 (ulp_exponent t)"
      by (simp add: pow2_le_iff)
    then have ulps: "32 * ulp q \<le> ulp t"
      by (simp add: ulp_def pow2_plus5)
    have "t / ulp t \<in> \<int>"
      using t assms(1) by (rule is_double_grid)
    moreover have "of_int (60 * (K + 1)) / ulp t \<in> \<int>"
      using t assms(3) by (rule int_ulp_grid)
    moreover have "t < of_int (60 * (K + 1))"
      using K(2) by (simp add: tq)
    ultimately have "ulp t \<le> of_int (60 * (K + 1)) - t"
      by (intro grid_gap ulp_pos)
    also have "of_int (60 * (K + 1)) - t = 60 * (of_int (K + 1) - q)"
      by (simp add: tq)
    also have "\<dots> \<le> 60 * (ulp q / 2)"
      using err by (intro mult_left_mono) simp_all
    finally have "ulp t \<le> 30 * ulp q" by simp
    then show False using ulps ulp_pos [of q] by linarith
  qed
  then have "round64 q < of_int (K + 1)" using hi by simp
  then have "round64 q < of_int K + 1" by simp
  then have "\<lfloor>round64 q\<rfloor> = K" using lo by (simp add: floor_eq_iff)
  then show ?thesis by (simp add: K_def q_def)
qed

lemma binade_times1000:
  assumes "0 < f"
  shows "binade (f * 1000) \<le> binade f + 10"
proof -
  have "f < pow2 (binade f + 1)"
    using binade_bounds [OF assms] by simp
  moreover have "pow2 (binade f + 10 + 1) = 1024 * pow2 (binade f + 1)"
    using pow2_plus10 [of "binade f + 1"] by (simp add: add.commute)
  ultimately have "f * 1000 < pow2 (binade f + 10 + 1)"
    using assms pow2_pos [of "binade f + 1"] by simp
  moreover have "0 < f * 1000" using assms by simp
  ultimately show ?thesis
    by (rule binade_le [rotated])
qed

lemma floor_round64_millis:
  assumes "is_double f" and "0 \<le> f" and "f < 1"
  shows "(\<lfloor>round64 (f * 1000)\<rfloor> = \<lfloor>f * 1000\<rfloor> \<or> \<lfloor>round64 (f * 1000)\<rfloor> = \<lfloor>f * 1000\<rfloor> + 1)
    \<and> 0 \<le> \<lfloor>round64 (f * 1000)\<rfloor> \<and> \<lfloor>round64 (f * 1000)\<rfloor> < 1000
    \<and> (\<lfloor>round64 (f * 1000)\<rfloor> = \<lfloor>f * 1000\<rfloor> + 1
         \<longleftrightarrow> round64 (f * 1000) = of_int (\<lfloor>f * 1000\<rfloor> + 1))"
proof (cases "f = 0")
  case True
  then show ?thesis by (simp add: round64_zero)
next
  case False
  then have f: "0 < f" using assms(2) by simp
  define p where "p = f * 1000"
  define m where "m = \<lfloor>p\<rfloor>"
  have p: "0 < p" "p < 2 ^ 53" "p < 1000"
    using f assms(3) by (simp_all add: p_def)
  have m: "of_int m \<le> p" "p < of_int (m + 1)" "0 \<le> m" "m + 1 \<le> 1000"
    using p(1,3) by (simp_all add: m_def floor_less_iff)
  have gm: "of_int m / ulp p \<in> \<int>" and gm1: "of_int (m + 1) / ulp p \<in> \<int>"
    using p(1,2) by (rule int_ulp_grid)+
  have lo: "of_int m \<le> round64 p"
    using p(1) gm m(1) by (rule round64_ge)
  have "p \<le> of_int (m + 1)" using m(2) by simp
  with p(1) gm1 have hi: "round64 p \<le> of_int (m + 1)"
    by (rule round64_le)
  have cases: "\<lfloor>round64 p\<rfloor> = m \<or> \<lfloor>round64 p\<rfloor> = m + 1"
  proof (cases "round64 p = of_int (m + 1)")
    case True
    then show ?thesis by simp
  next
    case False
    then have "round64 p < of_int m + 1" using hi by simp
    then have "\<lfloor>round64 p\<rfloor> = m" using lo by (simp add: floor_eq_iff)
    then show ?thesis by simp
  qed
  have up: "\<lfloor>round64 p\<rfloor> = m + 1 \<longleftrightarrow> round64 p = of_int (m + 1)"
  proof
    assume a: "\<lfloor>round64 p\<rfloor> = m + 1"
    have "of_int \<lfloor>round64 p\<rfloor> \<le> round64 p" by (rule of_int_floor_le)
    then have "of_int (m + 1) \<le> round64 p" unfolding a .
    then show "round64 p = of_int (m + 1)" using hi by simp
  next
    assume "round64 p = of_int (m + 1)"
    then show "\<lfloor>round64 p\<rfloor> = m + 1" by simp
  qed
  have "round64 p \<noteq> 1000"
  proof
    assume eq: "round64 p = 1000"
    have err: "1000 - p \<le> ulp p / 2"
      using round64_error [OF p(1)] unfolding eq by linarith
    have f53: "f < 2 ^ 53" using assms(3) by simp
    have "f / ulp f \<in> \<int>"
      using f assms(1) by (rule is_double_grid)
    moreover have "of_int 1 / ulp f \<in> \<int>"
      using f f53 by (rule int_ulp_grid)
    moreover have "f < of_int 1" using assms(3) by simp
    ultimately have "ulp f \<le> of_int 1 - f"
      by (intro grid_gap ulp_pos)
    then have gap: "1000 * ulp f \<le> 1000 - p" by (simp add: p_def)
    have "binade p \<le> binade f + 10"
      unfolding p_def using f by (rule binade_times1000)
    then have "ulp_exponent p \<le> ulp_exponent f + 10"
      unfolding ulp_exponent_def by linarith
    then have "pow2 (ulp_exponent p) \<le> pow2 (ulp_exponent f + 10)"
      by (simp add: pow2_le_iff)
    then have "ulp p \<le> 1024 * ulp f"
      by (simp add: ulp_def pow2_plus10)
    then show False using gap err ulp_pos [of f] by linarith
  qed
  moreover have "(of_int (m + 1) :: real) \<le> 1000"
    using m(4) by linarith
  ultimately have "round64 p < 1000"
    using hi by linarith
  then have lt: "\<lfloor>round64 p\<rfloor> < 1000" by (simp add: floor_less_iff)
  have "0 \<le> \<lfloor>round64 p\<rfloor>" using cases m(3) by linarith
  then have "(\<lfloor>round64 p\<rfloor> = m \<or> \<lfloor>round64 p\<rfloor> = m + 1)
    \<and> 0 \<le> \<lfloor>round64 p\<rfloor> \<and> \<lfloor>round64 p\<rfloor> < 1000
    \<and> (\<lfloor>round64 p\<rfloor> = m + 1 \<longleftrightarrow> round64 p = of_int (m + 1))"
    using cases up lt by blast
  then show ?thesis unfolding m_def p_def .
qed

section \<open>Properties of the race clock\<close>

lemma decimal_digits_one: "n < 10 \<Longrightarrow> decimal_digits n = [digit n]"
  by (subst decimal_digits.simps) (simp add: digit_def)

lemma decimal_digits_step:
  "10 \<le> n \<Longrightarrow> decimal_digits n = decimal_digits (n div 10) @ [digit (n mod 10)]"
  by (subst decimal_digits.simps) (simp add: digit_def)

lemma digit_zero: "digit 0 = CHR ''0''"
  unfolding digit_def by code_simp

lemma padStart_two:
  assumes "n < 100"
  shows "padStart 2 CHR ''0'' (decimal_digits n) = [digit (n div 10), digit (n mod 10)]"
proof (cases "n < 10")
  case True
  then show ?thesis
    by (simp add: padStart_def decimal_digits_one digit_zero)
next
  case False
  then have "n div 10 < 10" using assms by simp
  then show ?thesis
    using False by (simp add: padStart_def decimal_digits_step decimal_digits_one)
qed

lemma padStart_three:
  assumes "n < 1000"
  shows "padStart 3 CHR ''0'' (decimal_digits n) =
           [digit (n div 100), digit (n div 10 mod 10), digit (n mod 10)]"
proof -
  consider "n < 10" | "10 \<le> n" "n < 100" | "100 \<le> n"
    by linarith
  then show ?thesis
  proof cases
    case 1
    then show ?thesis
      by (simp add: padStart_def decimal_digits_one digit_zero numeral_3_eq_3)
  next
    case 2
    then have "n div 10 < 10" "n div 100 = 0" by simp_all
    then show ?thesis
      using 2 by (simp add: padStart_def decimal_digits_step decimal_digits_one digit_zero numeral_3_eq_3)
  next
    case 3
    then have a: "10 \<le> n" and b: "10 \<le> n div 10" and c: "n div 10 div 10 < 10"
      using assms by simp_all
    have "n div 10 div 10 = n div 100"
      by (simp add: div_mult2_eq)
    then show ?thesis
      using c by (simp add: padStart_def decimal_digits_step [OF a] decimal_digits_step [OF b]
          decimal_digits_one)
  qed
qed

lemma seconds_floor:
  assumes "0 \<le> t"
  shows "\<lfloor>js_rem t 60\<rfloor> = \<lfloor>t\<rfloor> mod 60"
proof -
  have "truncate_real (t / 60) = \<lfloor>t / 60\<rfloor>"
    using assms by (simp add: truncate_real_def)
  moreover have "\<lfloor>t / 60\<rfloor> = \<lfloor>t\<rfloor> div 60"
    using floor_divide_real_eq_div [of 60 t] by simp
  ultimately have "js_rem t 60 = t - of_int (60 * (\<lfloor>t\<rfloor> div 60))"
    by (simp add: js_rem_def)
  then have "\<lfloor>js_rem t 60\<rfloor> = \<lfloor>t\<rfloor> - 60 * (\<lfloor>t\<rfloor> div 60)"
    by (simp only: floor_diff_of_int)
  then show ?thesis
    by (simp add: minus_mult_div_eq_mod)
qed

lemma millis_floor: "\<lfloor>(t - of_int \<lfloor>t\<rfloor>) * 1000\<rfloor> = \<lfloor>t * 1000\<rfloor> mod 1000" for t :: real
proof -
  have "\<lfloor>t * 1000 / 1000\<rfloor> = \<lfloor>t * 1000\<rfloor> div 1000"
    using floor_divide_real_eq_div [of 1000 "t * 1000"] by simp
  then have fl: "\<lfloor>t\<rfloor> = \<lfloor>t * 1000\<rfloor> div 1000"
    by simp
  have "(t - of_int \<lfloor>t\<rfloor>) * 1000 = t * 1000 - of_int (1000 * \<lfloor>t\<rfloor>)"
    by (simp add: algebra_simps)
  then have "\<lfloor>(t - of_int \<lfloor>t\<rfloor>) * 1000\<rfloor> = \<lfloor>t * 1000\<rfloor> - 1000 * \<lfloor>t\<rfloor>"
    by (simp only: floor_diff_of_int)
  then show ?thesis
    using fl by (simp add: minus_mult_div_eq_mod)
qed

lemma js_rem_60:
  assumes "0 \<le> t"
  shows "js_rem t 60 = t - of_int (60 * (\<lfloor>t\<rfloor> div 60))"
proof -
  have "truncate_real (t / 60) = \<lfloor>t / 60\<rfloor>"
    using assms by (simp add: truncate_real_def)
  moreover have "\<lfloor>t / 60\<rfloor> = \<lfloor>t\<rfloor> div 60"
    using floor_divide_real_eq_div [of 60 t] by simp
  ultimately show ?thesis
    by (simp add: js_rem_def)
qed

lemma round64_js_rem:
  assumes "is_double t" and "0 \<le> t" and "t < 2 ^ 53"
  shows "round64 (js_rem t 60) = js_rem t 60"
proof (cases "t = 0")
  case True
  then show ?thesis by (simp add: js_rem_def truncate_real_def round64_zero)
next
  case False
  then have t: "0 < t" using assms(2) by simp
  have "0 \<le> \<lfloor>t\<rfloor>" using assms(2) by simp
  then have k: "0 \<le> 60 * (\<lfloor>t\<rfloor> div 60)"
    by (simp add: pos_imp_zdiv_nonneg_iff)
  have "60 * (\<lfloor>t\<rfloor> div 60) \<le> \<lfloor>t\<rfloor>"
    using minus_mult_div_eq_mod [of "\<lfloor>t\<rfloor>" 60] pos_mod_sign [of 60 "\<lfloor>t\<rfloor>"] by linarith
  then have "of_int (60 * (\<lfloor>t\<rfloor> div 60)) \<le> t"
    by (simp only: le_floor_iff [symmetric])
  then show ?thesis
    unfolding js_rem_60 [OF assms(2)] using assms(1) t assms(3) k
    by (intro round64_sub_int)
qed

lemma round64_fraction:
  assumes "is_double t" and "0 \<le> t" and "t < 2 ^ 53"
  shows "round64 (t - of_int \<lfloor>t\<rfloor>) = t - of_int \<lfloor>t\<rfloor>"
proof (cases "t = 0")
  case True
  then show ?thesis by (simp add: round64_zero)
next
  case False
  then have t: "0 < t" using assms(2) by simp
  have "0 \<le> \<lfloor>t\<rfloor>" using assms(2) by simp
  moreover have "of_int \<lfloor>t\<rfloor> \<le> t" by (rule of_int_floor_le)
  ultimately show ?thesis
    using assms(1) t assms(3) by (intro round64_sub_int)
qed

lemma binade_eq: "0 < x \<Longrightarrow> pow2 e \<le> x \<Longrightarrow> x < pow2 (e + 1) \<Longrightarrow> binade x = e"
  using binade_ge [of x e] binade_le [of x e] by simp

lemma round64_eval:
  assumes "0 < x" and "pow2 e \<le> x" and "x < pow2 (e + 1)" and "- 1022 \<le> e"
    and "round_half_even (x / pow2 (e - 52)) = n"
  shows "round64 x = of_int n * pow2 (e - 52)"
proof -
  have "binade x = e" using assms(1-3) by (rule binade_eq)
  then have "ulp x = pow2 (e - 52)"
    using assms(4) by (simp add: ulp_def ulp_exponent_def)
  then show ?thesis
    using assms(1,5) by (simp add: round64_pos)
qed

lemma is_double_grid_point:
  assumes "0 < n" and "n < 2 ^ 53" and "- 1074 \<le> e"
  shows "is_double (of_int n * pow2 e)"
proof -
  define x where "x = of_int n * pow2 e"
  have x: "0 < x" using assms(1) pow2_pos [of e] by (simp add: x_def)
  have "of_int n < (2::real) ^ 53" using assms(2) by (simp add: of_int_less_numeral_power_cancel_iff)
  then have "x < 2 ^ 53 * pow2 e"
    using pow2_pos [of e] by (simp add: x_def)
  also have "2 ^ 53 * pow2 e = pow2 (e + 52 + 1)"
    using pow2_add [of 53 e] by (simp add: pow2_def add.commute)
  finally have "binade x \<le> e + 52" using x by (intro binade_le)
  then have "ulp_exponent x \<le> e"
    using assms(3) by (simp add: ulp_exponent_def)
  moreover have "x / pow2 e \<in> \<int>"
    using pow2_pos [of e] by (simp add: x_def)
  ultimately have "x / ulp x \<in> \<int>"
    unfolding ulp_def by (rule pow2_grid)
  with x have "round64 x = x" by (rule round64_grid)
  then show ?thesis by (simp add: is_double_def x_def)
qed

lemma formatSeconds_digits:
  assumes "is_double t" and "0 \<le> t" and "t < 2 ^ 53"
    and "r = \<lfloor>round64 ((t - of_int \<lfloor>t\<rfloor>) * 1000)\<rfloor>"
  shows "formatSeconds t =
          decimal_digits (nat \<lfloor>t / 60\<rfloor>) @ '':''
          @ [digit (nat (\<lfloor>t\<rfloor> mod 60) div 10), digit (nat (\<lfloor>t\<rfloor> mod 60) mod 10)] @ ''.''
          @ [digit (nat r div 100), digit (nat r div 10 mod 10), digit (nat r mod 10)]"
    and "0 \<le> r" and "r < 1000"
    and "r = \<lfloor>t * 1000\<rfloor> mod 1000 \<or> r = \<lfloor>t * 1000\<rfloor> mod 1000 + 1"
    and "r = \<lfloor>t * 1000\<rfloor> mod 1000 + 1
          \<longleftrightarrow> round64 ((t - of_int \<lfloor>t\<rfloor>) * 1000) = of_int (\<lfloor>t * 1000\<rfloor> mod 1000 + 1)"
proof -
  define f where "f = t - of_int \<lfloor>t\<rfloor>"
  define m where "m = \<lfloor>t * 1000\<rfloor> mod 1000"
  have r_def: "r = \<lfloor>round64 (f * 1000)\<rfloor>"
    using assms(4) by (simp add: f_def)
  have minutes: "\<lfloor>round64 (t / 60)\<rfloor> = \<lfloor>t / 60\<rfloor>"
    using assms(1-3) by (rule floor_round64_div60)
  have min0: "\<not> t < 0"
    using assms(2) by simp
  have seconds: "\<lfloor>round64 (js_rem t 60)\<rfloor> = \<lfloor>t\<rfloor> mod 60"
    using round64_js_rem [OF assms(1-3)] seconds_floor [OF assms(2)] by simp
  have s: "\<not> \<lfloor>t\<rfloor> mod 60 < 0" "nat (\<lfloor>t\<rfloor> mod 60) < 100"
    by (simp_all add: not_less)
  have frac: "round64 f = f"
    unfolding f_def using assms(1-3) by (rule round64_fraction)
  then have "is_double f" by (simp add: is_double_def)
  moreover have "0 \<le> f" "f < 1"
    unfolding f_def by linarith+
  ultimately have millis: "(r = \<lfloor>f * 1000\<rfloor> \<or> r = \<lfloor>f * 1000\<rfloor> + 1)
      \<and> 0 \<le> r \<and> r < 1000
      \<and> (r = \<lfloor>f * 1000\<rfloor> + 1 \<longleftrightarrow> round64 (f * 1000) = of_int (\<lfloor>f * 1000\<rfloor> + 1))"
    unfolding r_def by (rule floor_round64_millis)
  have fm: "\<lfloor>f * 1000\<rfloor> = m"
    unfolding f_def m_def by (rule millis_floor)
  have r: "\<not> r < 0" "nat r < 1000"
    using millis by linarith+
  show "formatSeconds t =
          decimal_digits (nat \<lfloor>t / 60\<rfloor>) @ '':''
          @ [digit (nat (\<lfloor>t\<rfloor> mod 60) div 10), digit (nat (\<lfloor>t\<rfloor> mod 60) mod 10)] @ ''.''
          @ [digit (nat r div 100), digit (nat r div 10 mod 10), digit (nat r mod 10)]"
    unfolding formatSeconds_def Let_def minutes seconds frac [unfolded f_def]
      r_def [unfolded f_def, symmetric]
    by (simp add: String_int_def min0 s(1) r(1) padStart_two [OF s(2)] padStart_three [OF r(2)])
  show "0 \<le> r" "r < 1000" using millis by simp_all
  show "r = \<lfloor>t * 1000\<rfloor> mod 1000 \<or> r = \<lfloor>t * 1000\<rfloor> mod 1000 + 1"
    using millis [unfolded fm] unfolding m_def by blast
  show "r = \<lfloor>t * 1000\<rfloor> mod 1000 + 1
          \<longleftrightarrow> round64 ((t - of_int \<lfloor>t\<rfloor>) * 1000) = of_int (\<lfloor>t * 1000\<rfloor> mod 1000 + 1)"
    using millis [unfolded fm] unfolding m_def f_def by blast
qed

lemma digit_chars:
  "digit 0 = CHR ''0''" "digit 1 = CHR ''1''" "digit 2 = CHR ''2''" "digit 3 = CHR ''3''"
  "digit 4 = CHR ''4''" "digit 5 = CHR ''5''" "digit 6 = CHR ''6''" "digit 7 = CHR ''7''"
  "digit 8 = CHR ''8''" "digit 9 = CHR ''9''" "digit (Suc 0) = CHR ''1''"
  unfolding digit_def by code_simp+

text \<open>
  C9, amended: for a double \<open>t\<close> with \<open>0 \<le> t < 2^53\<close>, \<open>formatSeconds t\<close> is the decimal
  number of whole minutes \<open>\<lfloor>t / 60\<rfloor>\<close> (as many digits as it needs), a colon, the two
  digits of the whole seconds \<open>\<lfloor>t\<rfloor> mod 60\<close>, a dot, and three digits of milliseconds.
  Minutes and seconds are truncated. The milliseconds \<open>ms\<close> are below 1000 and are the
  truncated milliseconds \<open>\<lfloor>1000 t\<rfloor> mod 1000\<close> or one more: one more exactly when the
  product of the fractional part of \<open>t\<close> and 1000, rounded to the nearest double, is the
  next integer. In particular 125.4567 gives "2:05.456", 59.999 gives "0:59.999" and
  3600.0 gives "60:00.000", each literal being the double nearest to it.
\<close>

theorem formatSeconds_clock:
  "(is_double t \<and> 0 \<le> t \<and> t < 2 ^ 53 \<longrightarrow>
      (\<exists>ms. formatSeconds t =
              decimal_digits (nat \<lfloor>t / 60\<rfloor>) @ '':''
              @ [digit (nat (\<lfloor>t\<rfloor> mod 60) div 10), digit (nat (\<lfloor>t\<rfloor> mod 60) mod 10)] @ ''.''
              @ [digit (ms div 100), digit (ms div 10 mod 10), digit (ms mod 10)]
            \<and> ms < 1000
            \<and> (ms = nat (\<lfloor>t * 1000\<rfloor> mod 1000) \<or> ms = nat (\<lfloor>t * 1000\<rfloor> mod 1000) + 1)
            \<and> (ms = nat (\<lfloor>t * 1000\<rfloor> mod 1000) + 1 \<longleftrightarrow>
                 round64 ((t - of_int \<lfloor>t\<rfloor>) * 1000) = of_int (\<lfloor>t * 1000\<rfloor> mod 1000 + 1))))
   \<and> formatSeconds (round64 125.4567) = ''2:05.456''
   \<and> formatSeconds (round64 59.999) = ''0:59.999''
   \<and> formatSeconds (round64 3600.0) = ''60:00.000''"
proof -
  have general: "\<exists>ms. formatSeconds t =
              decimal_digits (nat \<lfloor>t / 60\<rfloor>) @ '':''
              @ [digit (nat (\<lfloor>t\<rfloor> mod 60) div 10), digit (nat (\<lfloor>t\<rfloor> mod 60) mod 10)] @ ''.''
              @ [digit (ms div 100), digit (ms div 10 mod 10), digit (ms mod 10)]
            \<and> ms < 1000
            \<and> (ms = nat (\<lfloor>t * 1000\<rfloor> mod 1000) \<or> ms = nat (\<lfloor>t * 1000\<rfloor> mod 1000) + 1)
            \<and> (ms = nat (\<lfloor>t * 1000\<rfloor> mod 1000) + 1 \<longleftrightarrow>
                 round64 ((t - of_int \<lfloor>t\<rfloor>) * 1000) = of_int (\<lfloor>t * 1000\<rfloor> mod 1000 + 1))"
    if t: "is_double t" "0 \<le> t" "t < 2 ^ 53"
  proof -
    define r where "r = \<lfloor>round64 ((t - of_int \<lfloor>t\<rfloor>) * 1000)\<rfloor>"
    define m where "m = \<lfloor>t * 1000\<rfloor> mod 1000"
    note clock = formatSeconds_digits [OF t r_def, folded m_def]
    have m0: "0 \<le> m" by (simp add: m_def)
    have "nat r < 1000" using clock(2,3) by linarith
    moreover have "nat r = nat m \<or> nat r = nat m + 1"
      using clock(4) m0 by auto
    moreover have "nat r = nat m + 1 \<longleftrightarrow>
        round64 ((t - of_int \<lfloor>t\<rfloor>) * 1000) = of_int (m + 1)"
      using clock(4,5) m0 by auto
    ultimately show ?thesis
      using clock(1) unfolding m_def by (intro exI [of _ "nat r"] conjI)
  qed
  have e1: "formatSeconds (round64 125.4567) = ''2:05.456''"
  proof -
    have t: "round64 125.4567 = 8828230427673939 / 70368744177664"
      using round64_eval [of "125.4567" 6 8828230427673939] by (simp add: pow2_def round_half_even_def Let_def)
    have d: "is_double (8828230427673939 / 70368744177664)"
      using is_double_grid_point [of 8828230427673939 "- 46"] by (simp add: pow2_def)
    have fl: "\<lfloor>8828230427673939 / 70368744177664 :: real\<rfloor> = 125"
      by simp
    have p: "round64 ((8828230427673939 / 70368744177664 - of_int 125) * 1000)
        = 8034351366484750 / 17592186044416"
      using round64_eval [of "(8828230427673939 / 70368744177664 - of_int 125) * 1000" 8
          8034351366484750]
      by (simp add: pow2_def round_half_even_def Let_def)
    have r: "(456::int) = \<lfloor>round64 ((8828230427673939 / 70368744177664
        - of_int \<lfloor>8828230427673939 / 70368744177664 :: real\<rfloor>) * 1000)\<rfloor>"
      unfolding fl p by simp
    show ?thesis
      unfolding t using formatSeconds_digits(1) [OF d _ _ r]
      by (simp add: decimal_digits_one digit_chars)
  qed
  have e2: "formatSeconds (round64 59.999) = ''0:59.999''"
  proof -
    have t: "round64 59.999 = 8444108563831325 / 140737488355328"
      using round64_eval [of "59.999" 5 8444108563831325] by (simp add: pow2_def round_half_even_def Let_def)
    have d: "is_double (8444108563831325 / 140737488355328)"
      using is_double_grid_point [of 8444108563831325 "- 47"] by (simp add: pow2_def)
    have fl: "\<lfloor>8444108563831325 / 140737488355328 :: real\<rfloor> = 59"
      by simp
    have p: "round64 ((8444108563831325 / 140737488355328 - of_int 59) * 1000)
        = 8787296929185812 / 8796093022208"
      using round64_eval [of "(8444108563831325 / 140737488355328 - of_int 59) * 1000" 9
          8787296929185812]
      by (simp add: pow2_def round_half_even_def Let_def)
    have r: "(999::int) = \<lfloor>round64 ((8444108563831325 / 140737488355328
        - of_int \<lfloor>8444108563831325 / 140737488355328 :: real\<rfloor>) * 1000)\<rfloor>"
      unfolding fl p by simp
    show ?thesis
      unfolding t using formatSeconds_digits(1) [OF d _ _ r]
      by (simp add: decimal_digits_one digit_chars)
  qed
  have e3: "formatSeconds (round64 3600.0) = ''60:00.000''"
  proof -
    have t: "round64 3600.0 = 3600"
      using round64_eval [of "3600" 11 7916483719987200] by (simp add: pow2_def round_half_even_def Let_def)
    have d: "is_double 3600"
      using is_double_grid_point [of 3600 0] by (simp add: pow2_def)
    have r: "(0::int) = \<lfloor>round64 ((3600 - of_int \<lfloor>3600 :: real\<rfloor>) * 1000)\<rfloor>"
      by (simp add: round64_zero)
    show ?thesis
      unfolding t using formatSeconds_digits(1) [OF d _ _ r]
      by (simp add: decimal_digits_one decimal_digits_step digit_chars)
  qed
  show ?thesis using general e1 e2 e3 by blast
qed

theorem formatSeconds_clock_witness:
  "is_double 7.25 \<and> (0::real) \<le> 7.25 \<and> (7.25::real) < 2 ^ 53
   \<and> formatSeconds 7.25 = ''0:07.250''"
proof -
  have d: "is_double 7.25"
    using is_double_grid_point [of 29 "- 2"] by (simp add: pow2_def)
  have fl: "\<lfloor>7.25 / 60 :: real\<rfloor> = 0" "\<lfloor>7.25 :: real\<rfloor> = 7" "\<lfloor>7.25 * 1000 :: real\<rfloor> = 7250"
    by (simp_all add: floor_eq_iff)
  have p: "round64 250 = 250"
    using is_double_grid_point [of 250 0] by (simp add: pow2_def is_double_def)
  obtain ms where "formatSeconds 7.25 =
      ''0:07.'' @ [digit (ms div 100), digit (ms div 10 mod 10), digit (ms mod 10)]"
    and "ms = 250 \<or> ms = 251" and "ms = 251 \<longleftrightarrow> round64 250 = (251::real)"
    using formatSeconds_clock [of "7.25"] d
    by (auto simp add: fl decimal_digits_one digit_chars)
  then have "formatSeconds 7.25 = ''0:07.250''"
    by (auto simp add: p digit_chars)
  then show ?thesis using d by simp
qed

text \<open>
  C9, the counterexample to the claim as worded: the double nearest to 60.561 lies
  below 60.561, so it has 1 whole minute, 0 whole seconds and 560 whole milliseconds,
  and truncation at each unit gives "1:00.560"; the product of its fractional part and
  1000 rounds up to 561, and "1:00.561" is printed.
\<close>

theorem formatSeconds_rounds_up:
  "is_double (round64 60.561)
   \<and> \<lfloor>round64 60.561 / 60\<rfloor> = 1
   \<and> \<lfloor>round64 60.561\<rfloor> mod 60 = 0
   \<and> \<lfloor>round64 60.561 * 1000\<rfloor> mod 1000 = 560
   \<and> formatSeconds (round64 60.561) = ''1:00.561''"
proof -
  have t: "round64 60.561 = 8523203032287019 / 140737488355328"
    using round64_eval [of "60.561" 5 8523203032287019] by (simp add: pow2_def round_half_even_def Let_def)
  have d: "is_double (8523203032287019 / 140737488355328)"
    using is_double_grid_point [of 8523203032287019 "- 47"] by (simp add: pow2_def)
  have fl: "\<lfloor>8523203032287019 / 140737488355328 :: real\<rfloor> = 60"
    by simp
  have p: "round64 ((8523203032287019 / 140737488355328 - of_int 60) * 1000) = 561"
    using round64_eval [of "(8523203032287019 / 140737488355328 - of_int 60) * 1000" 9
        4934608185458688]
    by (simp add: pow2_def round_half_even_def Let_def)
  have r: "(561::int) = \<lfloor>round64 ((8523203032287019 / 140737488355328
      - of_int \<lfloor>8523203032287019 / 140737488355328 :: real\<rfloor>) * 1000)\<rfloor>"
    unfolding fl p by simp
  have "formatSeconds (8523203032287019 / 140737488355328) = ''1:00.561''"
    using formatSeconds_digits(1) [OF d _ _ r]
    by (simp add: decimal_digits_one digit_chars)
  moreover have "\<lfloor>8523203032287019 / 140737488355328 * 1000 :: real\<rfloor> mod 1000 = 560"
    by simp
  moreover have "\<lfloor>8523203032287019 / 140737488355328 / 60 :: real\<rfloor> = 1"
    by simp
  ultimately show ?thesis
    unfolding t using d fl by simp
qed

section \<open>Properties of the telemetry calibrator\<close>

lemma flyingDurations_inBand:
  "flyingDurations ls = map (\<lambda>l. the (duration l)) (filter inBand ls)"
proof (induction ls)
  case Nil
  then show ?case by (simp add: flyingDurations_def List.map_filter_simps)
next
  case (Cons l ls)
  then show ?case
    by (cases "duration l") (auto simp add: flyingDurations_def List.map_filter_simps inBand_def)
qed

lemma sorted_last_Max:
  fixes xs :: "real list"
  assumes "sorted xs" and "xs \<noteq> []"
  shows "xs ! (length xs - 1) = Max (set xs)"
proof (rule Max_eqI [symmetric])
  show "finite (set xs)" by simp
  show "xs ! (length xs - 1) \<in> set xs" using assms(2) by simp
  fix y
  assume "y \<in> set xs"
  then obtain i where "i < length xs" and "y = xs ! i"
    by (auto simp add: in_set_conv_nth)
  then show "y \<le> xs ! (length xs - 1)"
    using sorted_nth_mono [OF assms(1), of i "length xs - 1"] by simp
qed

text \<open>
  C5, amended: \<open>inferPitLossFromLaps\<close> is total; it returns no estimate exactly when
  fewer than ten laps have a duration strictly between 30 and 200 seconds; otherwise it
  returns the maximum of these durations minus the element at index \<open>length div 2\<close> of
  their sorted list, clamped into \<open>[15, 30]\<close>; so every estimate lies in \<open>[15, 30]\<close>.
  The element at index \<open>length div 2\<close> is the median when the number of durations is
  odd, and then the result is the one the specification words; when the number is even
  it is the upper of the two middle elements.
\<close>

theorem inferPitLossFromLaps_spec:
  "(inferPitLossFromLaps ls = None \<longleftrightarrow> length (filter inBand ls) < 10)
   \<and> (10 \<le> length (filter inBand ls) \<longrightarrow>
        inferPitLossFromLaps ls =
          Some (max 15 (min 30 (Max (set (flyingDurations ls))
                                - sort (flyingDurations ls) ! (length (flyingDurations ls) div 2)))))
   \<and> (\<forall>r. inferPitLossFromLaps ls = Some r \<longrightarrow> 15 \<le> r \<and> r \<le> 30)
   \<and> length (flyingDurations ls) = length (filter inBand ls)
   \<and> set (flyingDurations ls) = {d. \<exists>l \<in> set ls. duration l = Some d \<and> 30 < d \<and> d < 200}
   \<and> (odd (length (filter inBand ls)) \<longrightarrow> inferPitLossFromLaps ls = spec_inferPitLoss ls)"
proof -
  let ?ds = "flyingDurations ls"
  have len: "length ?ds = length (filter inBand ls)"
    by (simp add: flyingDurations_inBand)
  have dset: "set ?ds = {d. \<exists>l \<in> set ls. duration l = Some d \<and> 30 < d \<and> d < 200}"
    by (force simp add: flyingDurations_def List.map_filter_def)
  have none: "inferPitLossFromLaps ls = None \<longleftrightarrow> length ?ds < 10"
  proof (cases "ls = []")
    case True
    then show ?thesis by (simp add: inferPitLossFromLaps_def flyingDurations_def List.map_filter_simps)
  next
    case False
    then show ?thesis by (simp add: inferPitLossFromLaps_def Let_def)
  qed
  have some: "inferPitLossFromLaps ls =
      Some (max 15 (min 30 (Max (set ?ds) - sort ?ds ! (length ?ds div 2))))"
    if ten: "10 \<le> length ?ds"
  proof -
    have ne: "ls \<noteq> []" using ten by (auto simp add: flyingDurations_def List.map_filter_simps)
    have "sort ?ds \<noteq> []" using ten by (metis length_sort list.size(3) not_numeral_le_zero)
    then have "sort ?ds ! (length (sort ?ds) - 1) = Max (set (sort ?ds))"
      by (intro sorted_last_Max) simp_all
    then show ?thesis
      using ten ne by (simp add: inferPitLossFromLaps_def Let_def)
  qed
  have range: "15 \<le> r \<and> r \<le> 30" if "inferPitLossFromLaps ls = Some r" for r
  proof -
    have "10 \<le> length ?ds" using that none by (cases "length ?ds < 10") auto
    then show ?thesis using some that by auto
  qed
  have none': "inferPitLossFromLaps ls = None \<longleftrightarrow> length (filter inBand ls) < 10"
    using none unfolding len .
  have some': "10 \<le> length (filter inBand ls) \<longrightarrow>
        inferPitLossFromLaps ls =
          Some (max 15 (min 30 (Max (set ?ds) - sort ?ds ! (length ?ds div 2))))"
    using some unfolding len by (rule impI)
  have range': "\<forall>r. inferPitLossFromLaps ls = Some r \<longrightarrow> 15 \<le> r \<and> r \<le> 30"
    using range by blast
  have spec: "inferPitLossFromLaps ls = spec_inferPitLoss ls" if odd: "odd (length ?ds)"
  proof (cases "length ?ds < 10")
    case True
    then have "inferPitLossFromLaps ls = None" using none by simp
    moreover have "spec_inferPitLoss ls = None"
      using True by (simp add: spec_inferPitLoss_def flyingDurations_inBand)
    ultimately show ?thesis by simp
  next
    case False
    then have "inferPitLossFromLaps ls =
        Some (max 15 (min 30 (Max (set ?ds) - sort ?ds ! (length ?ds div 2))))"
      using some by simp
    moreover have "median ?ds = sort ?ds ! (length ?ds div 2)"
      using odd by (simp add: median_def Let_def)
    moreover have "spec_inferPitLoss ls = Some (max 15 (min 30 (Max (set ?ds) - median ?ds)))"
      using False
      by (simp add: spec_inferPitLoss_def Let_def flyingDurations_inBand [symmetric])
    ultimately show ?thesis by simp
  qed
  have spec': "odd (length (filter inBand ls)) \<longrightarrow> inferPitLossFromLaps ls = spec_inferPitLoss ls"
    using spec unfolding len by (rule impI)
  show ?thesis
    using none' some' range' len dset spec' by (intro conjI)
qed

theorem inferPitLossFromLaps_spec_witness:
  "10 \<le> length (filter inBand pitLossLaps)
   \<and> odd (length (filter inBand pitLossLaps))
   \<and> inferPitLossFromLaps pitLossLaps = Some 25
   \<and> spec_inferPitLoss pitLossLaps = Some 25
   \<and> length (filter inBand (take 9 pitLossLaps)) < 10
   \<and> inferPitLossFromLaps (take 9 pitLossLaps) = None"
proof -
  have a: "length (filter inBand pitLossLaps) = 21"
    by code_simp
  have b: "Max (set (flyingDurations pitLossLaps)) = 115"
    by code_simp
  have c: "sort (flyingDurations pitLossLaps) ! (length (flyingDurations pitLossLaps) div 2) = 90"
    by code_simp
  have d: "length (filter inBand (take 9 pitLossLaps)) = 9"
    by code_simp
  have code: "inferPitLossFromLaps pitLossLaps = Some 25"
    using inferPitLossFromLaps_spec [of pitLossLaps] by (simp add: a b c)
  have "odd (length (filter inBand pitLossLaps))"
    by (simp add: a)
  then have spec: "inferPitLossFromLaps pitLossLaps = spec_inferPitLoss pitLossLaps"
    using inferPitLossFromLaps_spec [of pitLossLaps] by blast
  have none: "inferPitLossFromLaps (take 9 pitLossLaps) = None"
    using inferPitLossFromLaps_spec [of "take 9 pitLossLaps"] by (simp add: d)
  have "spec_inferPitLoss pitLossLaps = Some 25"
    using code unfolding spec .
  then show ?thesis
    using code none by (simp add: a d)
qed

text \<open>
  C5, the counterexample to the claim as worded: on ten durations in the band, five of
  90, four of 100 and one of 120 seconds, the sorted list has the middle elements 90
  and 100 and the median 95; the specification's estimate is \<open>120 - 95 = 25\<close>, and
  \<open>inferPitLossFromLaps\<close> returns \<open>120 - 100 = 20\<close>.
\<close>

theorem inferPitLossFromLaps_even_count:
  "length (filter inBand tenLaps) = 10
   \<and> inferPitLossFromLaps tenLaps = Some 20
   \<and> spec_inferPitLoss tenLaps = Some 25"
proof -
  have ds: "flyingDurations tenLaps = [90, 90, 90, 90, 90, 100, 100, 100, 100, 120]"
    by code_simp
  have srt: "sort [90, 90, 90, 90, 90, 100, 100, 100, 100, 120 :: real]
      = [90, 90, 90, 90, 90, 100, 100, 100, 100, 120]"
    by (rule sorted_sort_id) simp
  have len: "length (filter inBand tenLaps) = 10"
    using arg_cong [OF ds, of length] by (simp add: flyingDurations_inBand)
  have "length tenLaps \<noteq> 0"
    by (simp add: tenLaps_def)
  then have code: "inferPitLossFromLaps tenLaps = Some 20"
    by (simp add: inferPitLossFromLaps_def Let_def ds srt)
  have "median [90, 90, 90, 90, 90, 100, 100, 100, 100, 120] = 95"
    by (simp add: median_def Let_def srt)
  then have "spec_inferPitLoss tenLaps = Some 25"
    by (simp add: spec_inferPitLoss_def Let_def flyingDurations_inBand [symmetric] ds)
  then show ?thesis using len code by simp
qed

lemma groupByTyre_snoc: "groupByTyre (ls @ [l]) = groupStep l (groupByTyre ls)"
  by (simp add: groupByTyre_def)

lemma groupOf_snoc:
  "groupOf (ls @ [l]) key =
     (if \<not> skipLap l \<and> lapLabel l = key then groupOf ls key @ [l] else groupOf ls key)"
  by (simp add: groupOf_def)

lemma map_of_groupStep:
  "map_of (groupStep l byTyre) key =
     (if \<not> skipLap l \<and> lapLabel l = key
      then Some ((case map_of byTyre key of None \<Rightarrow> [] | Some arr \<Rightarrow> arr) @ [l])
      else map_of byTyre key)"
  by (auto simp add: groupStep_def Let_def map_of_map_entry split: option.splits)

lemma map_of_groupByTyre:
  "map_of (groupByTyre ls) key = (if groupOf ls key = [] then None else Some (groupOf ls key))"
proof (induction ls rule: rev_induct)
  case Nil
  then show ?case by (simp add: groupByTyre_def groupOf_def)
next
  case (snoc l ls)
  then show ?case
    by (simp add: groupByTyre_snoc groupOf_snoc map_of_groupStep)
qed

lemma distinct_groupStep:
  "distinct (map fst byTyre) \<Longrightarrow> distinct (map fst (groupStep l byTyre))"
  by (auto simp add: groupStep_def Let_def distinct_map_entry map_of_eq_None_iff)

lemma distinct_groupByTyre: "distinct (map fst (groupByTyre ls))"
proof (induction ls rule: rev_induct)
  case Nil
  then show ?case by (simp add: groupByTyre_def)
next
  case (snoc l ls)
  then show ?case by (simp add: groupByTyre_snoc distinct_groupStep)
qed

lemma map_of_fold_slopeStep:
  "distinct (map fst byTyre) \<Longrightarrow>
   map_of (fold slopeStep byTyre result) key =
     (case map_of byTyre key of
        None \<Rightarrow> map_of result key
      | Some arr \<Rightarrow> (case tyreSlope arr of None \<Rightarrow> map_of result key | Some c \<Rightarrow> Some c))"
proof (induction byTyre arbitrary: result)
  case Nil
  then show ?case by simp
next
  case (Cons e byTyre)
  obtain t arr where e: "e = (t, arr)" by (cases e)
  have rest: "distinct (map fst byTyre)" and fresh: "map_of byTyre t = None"
    using Cons.prems e by (auto simp add: map_of_eq_None_iff)
  have step: "map_of (slopeStep e result) key =
      (if key = t then (case tyreSlope arr of None \<Rightarrow> map_of result key | Some c \<Rightarrow> Some c)
       else map_of result key)"
    by (auto simp add: slopeStep_def e update_conv' split: option.splits)
  show ?case
  proof (cases "key = t")
    case True
    then show ?thesis
      using Cons.IH [OF rest, of "slopeStep e result"] fresh step unfolding e
      by (simp split: option.splits)
  next
    case False
    then show ?thesis
      using Cons.IH [OF rest, of "slopeStep e result"] step unfolding e
      by (simp split: option.splits)
  qed
qed


lemma fold_pair_sums:
  fixes f g :: "nat \<Rightarrow> real"
  shows "fold (\<lambda>i (a, b). (a + f i, b + g i)) [0..<n] (a0, b0) =
           (a0 + (\<Sum>i = 0..<n. f i), b0 + (\<Sum>i = 0..<n. g i))"
  by (induction n) simp_all

lemma foldl_plus: "foldl (\<lambda>a b. a + b) a xs = a + sum_list xs" for a :: real
  by (induction xs arbitrary: a) simp_all

lemma sum_list_nth_map:
  "(\<Sum>i = 0..<length pts. h (pts ! i)) = (\<Sum>p\<leftarrow>pts. h p)" for h :: "'a \<Rightarrow> real"
  using sum_list_sum_nth [of "map h pts"] by simp

lemma tyreSlope_olsSlope: "tyreSlope arr = olsSlope (lapPoints arr)"
proof -
  let ?pts = "lapPoints arr"
  let ?xs = "map (\<lambda>l. real_of_int (lap_number l)) arr"
  let ?ys = "map (\<lambda>l. the (duration l)) arr"
  let ?mx = "sum_list ?xs / real (length arr)"
  let ?my = "sum_list ?ys / real (length arr)"
  have xs: "map fst ?pts = ?xs" and ys: "map snd ?pts = ?ys" and len: "length ?pts = length arr"
    by (simp_all add: lapPoints_def comp_def)
  have nth: "fst (?pts ! i) = real_of_int (lap_number (arr ! i))"
      "snd (?pts ! i) = the (duration (arr ! i))" if "i < length arr" for i
    using that by (simp_all add: lapPoints_def)
  have loop: "fold (\<lambda>i (num, den).
                 (num + (?xs ! i - ?mx) * (?ys ! i - ?my), den + (?xs ! i - ?mx) * (?xs ! i - ?mx)))
               [0..<length arr] (0, 0)
           = ((\<Sum>p\<leftarrow>?pts. (fst p - ?mx) * (snd p - ?my)), (\<Sum>p\<leftarrow>?pts. (fst p - ?mx)\<^sup>2))"
  proof -
    have "fold (\<lambda>i (num, den).
                 (num + (?xs ! i - ?mx) * (?ys ! i - ?my), den + (?xs ! i - ?mx) * (?xs ! i - ?mx)))
               [0..<length arr] (0, 0)
        = (0 + (\<Sum>i = 0..<length arr. (?xs ! i - ?mx) * (?ys ! i - ?my)),
           0 + (\<Sum>i = 0..<length arr. (?xs ! i - ?mx) * (?xs ! i - ?mx)))"
      by (rule fold_pair_sums)
    also have "(\<Sum>i = 0..<length arr. (?xs ! i - ?mx) * (?ys ! i - ?my))
        = (\<Sum>i = 0..<length ?pts. (fst (?pts ! i) - ?mx) * (snd (?pts ! i) - ?my))"
      unfolding len by (rule sum.cong) (simp_all add: nth)
    also have "\<dots> = (\<Sum>p\<leftarrow>?pts. (fst p - ?mx) * (snd p - ?my))"
      by (rule sum_list_nth_map)
    also have "(\<Sum>i = 0..<length arr. (?xs ! i - ?mx) * (?xs ! i - ?mx))
        = (\<Sum>i = 0..<length ?pts. (fst (?pts ! i) - ?mx)\<^sup>2)"
      unfolding len by (rule sum.cong) (simp_all add: nth power2_eq_square)
    also have "\<dots> = (\<Sum>p\<leftarrow>?pts. (fst p - ?mx)\<^sup>2)"
      by (rule sum_list_nth_map)
    finally show ?thesis by simp
  qed
  show ?thesis
    by (simp add: tyreSlope_def olsSlope_def Let_def foldl_plus xs ys len loop not_le)
qed


lemma olsSlope_Nil: "olsSlope (lapPoints []) = None"
  by (simp add: olsSlope_def lapPoints_def)

lemma clamp_range: "lo \<le> hi \<Longrightarrow> lo \<le> max lo (min hi x) \<and> max lo (min hi x) \<le> hi"
  for lo hi x :: real
  by auto

lemma olsSlope_range:
  assumes "olsSlope pts = Some v"
  shows "0.03 \<le> v \<and> v \<le> 0.25"
proof -
  obtain x where "v = max 0.03 (min 0.25 x)"
    using assms by (auto simp only: olsSlope_def Let_def split: if_splits)
  then show ?thesis
    using clamp_range [of "0.03" "0.25" x] by simp
qed

lemma map_of_slopes:
  "map_of (fold slopeStep (groupByTyre ls) []) key = olsSlope (lapPoints (groupOf ls key))"
proof -
  have "(case tyreSlope arr of None \<Rightarrow> None | Some c \<Rightarrow> Some c) = tyreSlope arr" for arr
    by (cases "tyreSlope arr") simp_all
  then have "map_of (fold slopeStep (groupByTyre ls) []) key =
      (case map_of (groupByTyre ls) key of None \<Rightarrow> None | Some arr \<Rightarrow> tyreSlope arr)"
    using map_of_fold_slopeStep [OF distinct_groupByTyre, of ls "[]" key]
    by (simp split: option.splits)
  then show ?thesis
    by (simp add: map_of_groupByTyre tyreSlope_olsSlope olsSlope_Nil)
qed

lemma map_of_all_None: "(\<forall>k. map_of al k = None) \<longleftrightarrow> al = []"
proof (cases al)
  case Nil
  then show ?thesis by simp
next
  case (Cons p ps)
  then have "map_of al (fst p) = Some (snd p)" by simp
  then show ?thesis using Cons by (metis list.distinct(1) option.distinct(1))
qed

text \<open>
  C6, as amended: \<open>inferDegradationFromLaps\<close> groups the laps by upper-cased compound
  label, leaving out a lap whose label is absent or empty, whose duration is absent or
  zero, or whose lap number is zero. The entry of a label is the least-squares slope of
  duration against lap number over its group, clamped into \<open>[0.03, 0.25]\<close>, when the
  group has twelve points or more and \<open>\<Sum>(x - mean x)\<^sup>2\<close> is positive, and is absent
  otherwise, whatever the other groups give. The result is \<open>null\<close> exactly when no label
  has an entry.
\<close>

theorem inferDegradationFromLaps_entries:
  "degradation_entry (inferDegradationFromLaps ls) key = olsSlope (lapPoints (groupOf ls key))
   \<and> (inferDegradationFromLaps ls = None \<longleftrightarrow> (\<forall>k. olsSlope (lapPoints (groupOf ls k)) = None))
   \<and> (\<forall>v. degradation_entry (inferDegradationFromLaps ls) key = Some v \<longrightarrow> 0.03 \<le> v \<and> v \<le> 0.25)"
proof -
  let ?R = "fold slopeStep (groupByTyre ls) []"
  have res: "inferDegradationFromLaps ls = (if ?R = [] then None else Some ?R)"
    by (cases "groupByTyre ls = []") (simp_all add: inferDegradationFromLaps_def Let_def)
  have entry: "degradation_entry (inferDegradationFromLaps ls) k = olsSlope (lapPoints (groupOf ls k))"
    for k
  proof (cases "?R = []")
    case True
    then have "olsSlope (lapPoints (groupOf ls k)) = None"
      using map_of_slopes [of ls k] by simp
    then show ?thesis
      using True by (simp add: res degradation_entry_def)
  next
    case False
    then show ?thesis
      by (simp add: res degradation_entry_def map_of_slopes)
  qed
  have "inferDegradationFromLaps ls = None \<longleftrightarrow> (\<forall>k. map_of ?R k = None)"
    by (simp add: res map_of_all_None)
  then have none: "inferDegradationFromLaps ls = None \<longleftrightarrow>
      (\<forall>k. olsSlope (lapPoints (groupOf ls k)) = None)"
    by (simp only: map_of_slopes)
  have range: "\<forall>v. degradation_entry (inferDegradationFromLaps ls) key = Some v \<longrightarrow>
      0.03 \<le> v \<and> v \<le> 0.25"
    using olsSlope_range by (simp only: entry) blast
  show ?thesis
    using entry [of key] none range by (intro conjI)
qed

theorem inferDegradationFromLaps_entries_witness:
  "degradation_entry (inferDegradationFromLaps softLaps) ''SOFT'' = Some 0.1
   \<and> (0.03 :: real) \<le> 0.1 \<and> (0.1 :: real) \<le> 0.25
   \<and> inferDegradationFromLaps softLaps \<noteq> None"
proof -
  have a: "olsSlope (lapPoints (groupOf softLaps ''SOFT'')) = Some 0.1"
    by code_simp
  show ?thesis
    using inferDegradationFromLaps_entries [of softLaps "''SOFT''"] a
    by (auto simp add: degradation_entry_def split: option.splits)
qed

text \<open>
  C6 as stated fails on a lap that has a label and a duration and is skipped all the
  same: of twelve soft laps, the first has the duration 0. The source drops it, eleven
  points remain and the result is \<open>null\<close>; grouping all laps that have a label and a
  duration gives twelve points and the (clamped) slope 0.25. The same happens when the
  twelve laps are numbered from 0: the lap with the number 0 is dropped.
\<close>

theorem inferDegradationFromLaps_zero_duration:
  "inferDegradationFromLaps zeroDurationLaps = None
   \<and> degradation_entry (inferDegradationFromLaps zeroDurationLaps) ''SOFT'' = None
   \<and> spec_degradation_entry zeroDurationLaps ''SOFT'' = Some 0.25
   \<and> inferDegradationFromLaps zeroLapNumberLaps = None
   \<and> degradation_entry (inferDegradationFromLaps zeroLapNumberLaps) ''SOFT'' = None
   \<and> spec_degradation_entry zeroLapNumberLaps ''SOFT'' = Some 0.1"
  by code_simp

section \<open>Properties of the track profile builder\<close>

lemma synthesizeTrack_no_flying_lap:
  "flyingDurations ls = [] \<Longrightarrow> base_lap_time_seconds (synthesizeTrack tracks ls pit deg) = 90"
  by (simp add: synthesizeTrack_def or_number_def Let_def)


text \<open>
  C2, at the failing input: the catalog holds Monza only (base lap time 92 s) and the
  session found for Spa has no lap with a duration strictly between 30 and 200 seconds.
  The synthesized profile for Spa has the base lap time 90, not the catalog-wide
  average 92: \<open>p20\<close> is 90 when no duration qualifies, so \<open>p20 || avgBase\<close> never takes
  \<open>avgBase\<close>.
\<close>

theorem synthesized_base_lap_time_is_90:
  "map_of [(''Monza'', scenarioTrack 53)] ''Spa'' = None
   \<and> flyingDurations slowLaps = []
   \<and> map_option base_lap_time_seconds
         (map_of (tracksForRun [(''Monza'', scenarioTrack 53)] ''Spa'' (Some slowLaps)) ''Spa'')
       = Some 90
   \<and> average base_lap_time_seconds (map snd [(''Monza'', scenarioTrack 53)]) = 92"
  by code_simp

end
